theory Spec2Isabelle
  imports Complex_Main "HOL-Library.AList" "HOL-Library.Multiset"
begin

section \<open>Smart-Megazen: classification, aggregation and alerting engine\<close>

text \<open>
  A shallow embedding of \<^verbatim>\<open>mobile/src/shared/MegazenService.js\<close> (staleness,
  unit classification, fleet aggregation, alert-log projection), of the hook
  \<^verbatim>\<open>useLiveWarehouse.js\<close> (edge-triggered Amber Alert) and of \<^verbatim>\<open>alertsToCsv\<close> in
  \<^verbatim>\<open>AlertLogPanel.js\<close>.

  Conventions of the embedding:
  \<^item> A number read from the store is the exact rational value (\<^typ>\<open>rat\<close>) of the double it
    is; timestamps and the clock are integers (milliseconds since the epoch). The sums and
    averages of the aggregator are computed in IEEE binary64 arithmetic, rounding to
    nearest with ties to even; the two zeros of that arithmetic are not told apart.
  \<^item> A field that is absent (\<^verbatim>\<open>undefined\<close>/\<^verbatim>\<open>null\<close>) is \<^term>\<open>None\<close>. Arithmetic on an absent
    number gives \<^verbatim>\<open>NaN\<close>, again \<^term>\<open>None\<close>, and every comparison with it is false.
  \<^item> A JavaScript object used as a dictionary is an association list in the order of
    \<^verbatim>\<open>Object.keys\<close>; its keys are distinct.
  \<^item> \<^verbatim>\<open>Date.now()\<close> is the parameter \<open>now\<close>; one aggregation reads one clock value.
\<close>

subsection \<open>JavaScript operators on possibly absent numbers\<close>

definition js_gt :: "rat option \<Rightarrow> rat option \<Rightarrow> bool" where
  "js_gt a b = (case a of None \<Rightarrow> False
                | Some x \<Rightarrow> (case b of None \<Rightarrow> False | Some y \<Rightarrow> x > y))"

definition js_lt :: "rat option \<Rightarrow> rat option \<Rightarrow> bool" where
  "js_lt a b = (case a of None \<Rightarrow> False
                | Some x \<Rightarrow> (case b of None \<Rightarrow> False | Some y \<Rightarrow> x < y))"

definition js_times :: "rat option \<Rightarrow> rat \<Rightarrow> rat option" where
  "js_times a k = map_option (\<lambda>x. x * k) a"

text \<open>\<^verbatim>\<open>x ?? 0\<close> on a number.\<close>

definition orZero :: "rat option \<Rightarrow> rat" where
  "orZero a = (case a of None \<Rightarrow> 0 | Some x \<Rightarrow> x)"

text \<open>
  \<^verbatim>\<open>x.toFixed(1)\<close> read as a number, for a finite \<open>x\<close> below \<^verbatim>\<open>1e21\<close> in magnitude: the
  nearest multiple of one tenth of the exact value of \<open>x\<close>, a tie going away from zero.
\<close>

definition toFixed1 :: "rat \<Rightarrow> rat" where
  "toFixed1 x = (if x < 0 then - (of_int \<lfloor>(- x) * 10 + 1 / 2\<rfloor> / 10)
                 else of_int \<lfloor>x * 10 + 1 / 2\<rfloor> / 10)"

subsection \<open>IEEE binary64 arithmetic\<close>

text \<open>
  The value of a JavaScript number in the aggregator: a finite double by its exact value,
  the two infinities, or \<^verbatim>\<open>NaN\<close>.
\<close>

datatype double = Num rat | Infinity | NegInfinity | NaN

text \<open>
  The floor of the binary logarithm of a positive integer, and the powers of two with an
  integer exponent (by squaring).
\<close>

function ilog2 :: "int \<Rightarrow> int" where
  "ilog2 n =
     (if n < 2 then 0
      else if 18446744073709551616 \<le> n then 64 + ilog2 (n div 18446744073709551616)
      else 1 + ilog2 (n div 2))"
  by pat_completeness auto
termination
  by (relation "measure nat") auto

declare ilog2.simps [simp del]

function pow2 :: "int \<Rightarrow> rat" where
  "pow2 e =
     (if e = 0 then 1
      else if e < 0 then 1 / pow2 (- e)
      else if even e then pow2 (e div 2) * pow2 (e div 2)
      else 2 * pow2 (e - 1))"
  by pat_completeness auto
termination
  by (relation "measure (\<lambda>e. if e < 0 then nat (- e) + 1 else nat e)") auto

declare pow2.simps [simp del]

text \<open>The exponent of the binade of a positive rational: the floor of its binary logarithm.\<close>

definition floor_log2 :: "rat \<Rightarrow> int" where
  "floor_log2 a =
     (let k = ilog2 (fst (quotient_of a)) - ilog2 (snd (quotient_of a))
      in if pow2 k \<le> a then k else k - 1)"

text \<open>The least magnitude that is too large for a finite double: \<open>2\<^sup>1\<^sup>0\<^sup>2\<^sup>4\<close>.\<close>

definition double_overflow :: rat where
  "double_overflow = 179769313486231590772930519078902473361797697894230657273430081157732675805500963132708477322407536021120113879871393357658789768814416622492847430639474124377767893424865485276302219601246094119453082952085005768838150682342462881473913110540827237163350510684586298239947245938479716304835356329624224137216"

definition roundHalfEven :: "rat \<Rightarrow> int" where
  "roundHalfEven y =
     (let f = \<lfloor>y\<rfloor>; d = y - of_int f
      in if d < 1 / 2 then f else if 1 / 2 < d then f + 1 else if even f then f else f + 1)"

text \<open>
  Rounding a real result to a double: 53 significant bits, the exponent not below -1022
  (so that small results are rounded to multiples of \<open>2\<^sup>-\<^sup>1\<^sup>0\<^sup>7\<^sup>4\<close>), round to nearest with
  ties to even, and an infinity when the rounded magnitude reaches \<open>2\<^sup>1\<^sup>0\<^sup>2\<^sup>4\<close>.
\<close>

definition toDouble :: "rat \<Rightarrow> double" where
  "toDouble x =
     (if x = 0 then Num 0
      else
        let a = \<bar>x\<bar>;
            e = max (- 1022) (floor_log2 a);
            ulp = pow2 (e - 52);
            r = of_int (roundHalfEven (a / ulp)) * ulp
        in if double_overflow \<le> r then (if 0 < x then Infinity else NegInfinity)
           else Num (if x < 0 then - r else r))"

text \<open>\<^verbatim>\<open>x + y\<close> on doubles. Adding a zero is exact.\<close>

definition fadd :: "double \<Rightarrow> double \<Rightarrow> double" where
  "fadd x y =
     (case x of
        NaN \<Rightarrow> NaN
      | Infinity \<Rightarrow> (case y of NaN \<Rightarrow> NaN | NegInfinity \<Rightarrow> NaN | _ \<Rightarrow> Infinity)
      | NegInfinity \<Rightarrow> (case y of NaN \<Rightarrow> NaN | Infinity \<Rightarrow> NaN | _ \<Rightarrow> NegInfinity)
      | Num a \<Rightarrow>
          (case y of
             Num b \<Rightarrow> if b = 0 then Num a else if a = 0 then Num b else toDouble (a + b)
           | _ \<Rightarrow> y))"

text \<open>
  \<^verbatim>\<open>x / n\<close> for a double and a count: a zero divisor gives \<^verbatim>\<open>NaN\<close> for a zero dividend and
  an infinity otherwise.
\<close>

definition fdiv :: "double \<Rightarrow> int \<Rightarrow> double" where
  "fdiv x n =
     (case x of
        NaN \<Rightarrow> NaN
      | Infinity \<Rightarrow> if n < 0 then NegInfinity else Infinity
      | NegInfinity \<Rightarrow> if n < 0 then Infinity else NegInfinity
      | Num a \<Rightarrow>
          if n = 0 then (if a = 0 then NaN else if 0 < a then Infinity else NegInfinity)
          else toDouble (a / of_int n))"

text \<open>
  \<^verbatim>\<open>parseFloat(x.toFixed(1))\<close>. From \<^verbatim>\<open>1e21\<close> on \<^verbatim>\<open>toFixed\<close> writes the number as
  \<^verbatim>\<open>toString\<close> does, and an infinity or \<^verbatim>\<open>NaN\<close> by its name: \<^verbatim>\<open>parseFloat\<close> reads the same
  number back. Below, the decimal with one fraction digit is read as the nearest double.
\<close>

definition parseFloat_toFixed1 :: "double \<Rightarrow> double" where
  "parseFloat_toFixed1 x =
     (case x of
        Num a \<Rightarrow> if 1000000000000000000000 \<le> \<bar>a\<bar> then Num a else toDouble (toFixed1 a)
      | _ \<Rightarrow> x)"

subsection \<open>Data model\<close>

datatype status = Optimal | At_Risk | Critical | Offline | No_Data

record reading =
  hum :: "rat option"
  temp :: "rat option"
  battery :: "rat option"
  timestamp :: "int option"

record thresholds =
  max_humidity :: "rat option"
  max_temperature :: "rat option"
  min_battery :: "rat option"

definition STALE_THRESHOLD_MS :: int where
  "STALE_THRESHOLD_MS = 120000"

definition DEFAULT_THRESHOLDS :: thresholds where
  "DEFAULT_THRESHOLDS =
     \<lparr>max_humidity = Some 60, max_temperature = Some 30, min_battery = Some 20\<rparr>"

subsection \<open>Staleness policy and unit classifier\<close>

text \<open>
  \<^verbatim>\<open>if (!lastSeenTimestamp) return true;\<close> is taken for an absent timestamp and for the
  number 0, both falsy.
\<close>

definition isNodeStale :: "int \<Rightarrow> int option \<Rightarrow> bool" where
  "isNodeStale now lastSeenTimestamp =
     (case lastSeenTimestamp of
        None \<Rightarrow> True
      | Some t \<Rightarrow> if t = 0 then True else now - t > STALE_THRESHOLD_MS)"

definition getNodeStatus :: "int \<Rightarrow> reading option \<Rightarrow> thresholds \<Rightarrow> status" where
  "getNodeStatus now node th =
     (case node of
        None \<Rightarrow> Offline
      | Some n \<Rightarrow>
          if isNodeStale now (timestamp n) then Offline
          else
            let humCritical = js_gt (hum n) (js_times (max_humidity th) (11 / 10));
                tempCritical = js_gt (temp n) (js_times (max_temperature th) (11 / 10))
            in if humCritical \<or> tempCritical then Critical
               else
                 let humRisk = js_gt (hum n) (max_humidity th);
                     tempRisk = js_gt (temp n) (max_temperature th)
                 in if humRisk \<or> tempRisk then At_Risk else Optimal)"

text \<open>
  The classifier as the specification words it (sections 4.1 and 4.2): a timestamp is
  stale when it is absent or older than 120000 ms; an absent or stale reading is
  Offline; then the risk and the critical conditions are computed, and tested in tiers.
\<close>

definition isStale_spec :: "int option \<Rightarrow> int \<Rightarrow> bool" where
  "isStale_spec lastSeenMs nowMs =
     (case lastSeenMs of None \<Rightarrow> True | Some t \<Rightarrow> nowMs - t > 120000)"

definition classify_tiers :: "bool \<Rightarrow> reading option \<Rightarrow> thresholds \<Rightarrow> status" where
  "classify_tiers stale r th =
     (case r of
        None \<Rightarrow> Offline
      | Some n \<Rightarrow>
          if stale then Offline
          else
            let humRisk = js_gt (hum n) (max_humidity th);
                tempRisk = js_gt (temp n) (max_temperature th);
                humCritical = js_gt (hum n) (js_times (max_humidity th) (11 / 10));
                tempCritical = js_gt (temp n) (js_times (max_temperature th) (11 / 10))
            in if humCritical \<or> tempCritical then Critical
               else if humRisk \<or> tempRisk then At_Risk
               else Optimal)"


subsection \<open>Fleet aggregator\<close>

type_synonym 'v js_object = "(string \<times> 'v) list"

definition Object_keys :: "'v js_object \<Rightarrow> string list" where
  "Object_keys obj = map fst obj"

text \<open>\<^verbatim>\<open>readings[nodeId]\<close>: the value stored under the key, absent when there is none.\<close>

definition js_get :: "'v option js_object \<Rightarrow> string \<Rightarrow> 'v option" where
  "js_get obj k = (case map_of obj k of None \<Rightarrow> None | Some v \<Rightarrow> v)"

text \<open>\<^verbatim>\<open>node.f\<close> and \<^verbatim>\<open>node?.f\<close> where the node itself may be absent.\<close>

definition field :: "('r \<Rightarrow> 'a option) \<Rightarrow> 'r option \<Rightarrow> 'a option" where
  "field f node = (case node of None \<Rightarrow> None | Some n \<Rightarrow> f n)"

record enriched_node = reading +
  nodeId :: string
  status :: status
  isOnline :: bool
  lastSeenAgo :: "int option"

record warehouse_status =
  overallStatus :: status
  averageTemp :: double
  averageHum :: double
  totalNodes :: int
  onlineNodes :: int
  offlineNodes :: int
  atRiskNodesCount :: int
  criticalNodesCount :: int
  lowBatteryNodes :: "string list"
  enrichedNodes :: "enriched_node js_object"

text \<open>The local variables of the aggregation loop.\<close>

record agg =
  tempSum :: double
  humSum :: double
  onlineCount :: int
  atRiskCount :: int
  criticalCount :: int
  lowBatteryNodes_acc :: "string list"
  enrichedNodes_acc :: "enriched_node js_object"

definition agg_init :: agg where
  "agg_init = \<lparr>tempSum = Num 0, humSum = Num 0, onlineCount = 0, atRiskCount = 0,
                criticalCount = 0, lowBatteryNodes_acc = [], enrichedNodes_acc = []\<rparr>"

definition enrich :: "int \<Rightarrow> string \<Rightarrow> reading option \<Rightarrow> status \<Rightarrow> enriched_node" where
  "enrich now k node st =
     \<lparr>hum = field hum node, temp = field temp node, battery = field battery node,
      timestamp = field timestamp node,
      nodeId = k, status = st, isOnline = (st \<noteq> Offline),
      lastSeenAgo = (case field timestamp node of
                       None \<Rightarrow> None
                     | Some t \<Rightarrow> if t = 0 then None else Some ((now - t) div 1000))\<rparr>"

definition loop_body :: "int \<Rightarrow> reading option js_object \<Rightarrow> thresholds \<Rightarrow> agg \<Rightarrow> string \<Rightarrow> agg" where
  "loop_body now readings th s k =
     (let node = js_get readings k;
          st = getNodeStatus now node th;
          online = (st \<noteq> Offline);
          s1 = s\<lparr>enrichedNodes_acc := AList.update k (enrich now k node st) (enrichedNodes_acc s)\<rparr>;
          s2 = (if online
                then s1\<lparr>tempSum := fadd (tempSum s1) (Num (orZero (field temp node))),
                        humSum := fadd (humSum s1) (Num (orZero (field hum node))),
                        onlineCount := onlineCount s1 + 1\<rparr>
                else s1);
          s3 = (if st = At_Risk then s2\<lparr>atRiskCount := atRiskCount s2 + 1\<rparr> else s2);
          s4 = (if st = Critical then s3\<lparr>criticalCount := criticalCount s3 + 1\<rparr> else s3)
      in if online \<and> field battery node \<noteq> None \<and> js_lt (field battery node) (min_battery th)
         then s4\<lparr>lowBatteryNodes_acc := lowBatteryNodes_acc s4 @ [k]\<rparr>
         else s4)"

definition getWarehouseStatus :: "int \<Rightarrow> reading option js_object \<Rightarrow> thresholds \<Rightarrow> warehouse_status" where
  "getWarehouseStatus now readings th =
     (let nodeIds = Object_keys readings
      in if length nodeIds = 0
         then \<lparr>overallStatus = No_Data, averageTemp = Num 0, averageHum = Num 0,
               totalNodes = 0, onlineNodes = 0, offlineNodes = 0, atRiskNodesCount = 0,
               criticalNodesCount = 0, lowBatteryNodes = [], enrichedNodes = []\<rparr>
         else
           let s = foldl (loop_body now readings th) agg_init nodeIds;
               overall = (if criticalCount s > 0 then Critical
                          else if atRiskCount s > 0 then At_Risk
                          else if onlineCount s = 0 then No_Data
                          else Optimal)
           in \<lparr>overallStatus = overall,
               averageTemp = (if onlineCount s > 0
                              then parseFloat_toFixed1 (fdiv (tempSum s) (onlineCount s))
                              else Num 0),
               averageHum = (if onlineCount s > 0
                             then parseFloat_toFixed1 (fdiv (humSum s) (onlineCount s))
                             else Num 0),
               totalNodes = int (length nodeIds),
               onlineNodes = onlineCount s,
               offlineNodes = int (length nodeIds) - onlineCount s,
               atRiskNodesCount = atRiskCount s,
               criticalNodesCount = criticalCount s,
               lowBatteryNodes = lowBatteryNodes_acc s,
               enrichedNodes = enrichedNodes_acc s\<rparr>)"

text \<open>The status the aggregator computes for the unit stored under a key.\<close>

definition unitStatus :: "int \<Rightarrow> reading option js_object \<Rightarrow> thresholds \<Rightarrow> string \<Rightarrow> status" where
  "unitStatus now readings th k = getNodeStatus now (js_get readings k) th"

text \<open>
  A fleet used as a concrete input: two online units, whose temperatures are the doubles
  written \<^verbatim>\<open>20.1\<close> and \<^verbatim>\<open>20.2\<close> and of which the second has no humidity, and an absent
  reading.
\<close>

definition fleet_mixed :: "reading option js_object" where
  "fleet_mixed =
     [(''n1'', Some \<lparr>hum = Some 85, temp = Some (2828823515942093 / 140737488355328),
                      battery = Some 50, timestamp = Some 1000000\<rparr>),
      (''n2'', Some \<lparr>hum = None, temp = Some (5685794529555251 / 281474976710656),
                      battery = Some 50, timestamp = Some 1000000\<rparr>),
      (''n3'', None)]"

text \<open>
  A fleet of two online units whose temperatures are both \<open>2\<^sup>1\<^sup>0\<^sup>2\<^sup>3\<close>, a finite double.
\<close>

definition fleet_huge :: "reading option js_object" where
  "fleet_huge =
     [(''n1'', Some \<lparr>hum = Some 50, temp = Some (double_overflow / 2),
                      battery = Some 50, timestamp = Some 1000000\<rparr>),
      (''n2'', Some \<lparr>hum = Some 50, temp = Some (double_overflow / 2),
                      battery = Some 50, timestamp = Some 1000000\<rparr>)]"

subsection \<open>Transition-triggered alarm (the hook \<^verbatim>\<open>useLiveWarehouse\<close>)\<close>

text \<open>
  The state the hook keeps between runs of its status-aggregation effect:
  \<^verbatim>\<open>warehouseStatus\<close>, the ref \<^verbatim>\<open>prevOverall\<close> (initially \<^verbatim>\<open>null\<close>) and
  \<^verbatim>\<open>amberAlertActive\<close>.
\<close>

record hook_state =
  warehouseStatus :: "warehouse_status option"
  prevOverall :: "status option"
  amberAlertActive :: bool

definition hook_init :: hook_state where
  "hook_init = \<lparr>warehouseStatus = None, prevOverall = None, amberAlertActive = False\<rparr>"

text \<open>
  The body of the effect once the snapshot is computed. The first component tells
  whether the activation branch ran (\<^verbatim>\<open>setAmberAlertActive(true)\<close> and the haptic
  request).
\<close>

definition onSnapshot :: "hook_state \<Rightarrow> warehouse_status \<Rightarrow> bool \<times> hook_state" where
  "onSnapshot st snapshot =
     (let st1 = st\<lparr>warehouseStatus := Some snapshot\<rparr>;
          fire = (overallStatus snapshot = Critical \<and> prevOverall st1 \<noteq> Some Critical);
          st2 = (if fire then st1\<lparr>amberAlertActive := True\<rparr> else st1)
      in (fire, st2\<lparr>prevOverall := Some (overallStatus snapshot)\<rparr>))"

definition statusAggregationEffect ::
    "hook_state \<Rightarrow> int \<Rightarrow> reading option js_object \<Rightarrow> thresholds \<Rightarrow> bool \<times> hook_state" where
  "statusAggregationEffect st now readings th = onSnapshot st (getWarehouseStatus now readings th)"

definition dismissAmberAlert :: "hook_state \<Rightarrow> hook_state" where
  "dismissAmberAlert st = st\<lparr>amberAlertActive := False\<rparr>"

text \<open>The activation flags of a run of the effect over a sequence of snapshots.\<close>

fun activations :: "hook_state \<Rightarrow> warehouse_status list \<Rightarrow> bool list" where
  "activations st [] = []"
| "activations st (s # ss) = fst (onSnapshot st s) # activations (snd (onSnapshot st s)) ss"

fun feed :: "hook_state \<Rightarrow> warehouse_status list \<Rightarrow> hook_state" where
  "feed st [] = st"
| "feed st (s # ss) = feed (snd (onSnapshot st s)) ss"

text \<open>Two fleets of one unit, used as concrete inputs: one in range, one too humid.\<close>

definition fleet_optimal :: "reading option js_object" where
  "fleet_optimal =
     [(''n1'', Some \<lparr>hum = Some 50, temp = Some 20, battery = Some 50, timestamp = Some 1000000\<rparr>)]"

definition fleet_critical :: "reading option js_object" where
  "fleet_critical =
     [(''n1'', Some \<lparr>hum = Some 85, temp = Some 20, battery = Some 50, timestamp = Some 1000000\<rparr>)]"

definition snapshot_optimal :: warehouse_status where
  "snapshot_optimal = getWarehouseStatus 1000500 fleet_optimal DEFAULT_THRESHOLDS"

definition snapshot_critical :: warehouse_status where
  "snapshot_critical = getWarehouseStatus 1000500 fleet_critical DEFAULT_THRESHOLDS"

text \<open>What happens to the hook: its effect runs on a recomputed snapshot, or the consumer dismisses the alarm.\<close>

datatype hook_event = Recomputed warehouse_status | Dismissed

fun handle :: "hook_state \<Rightarrow> hook_event \<Rightarrow> hook_state" where
  "handle st (Recomputed snapshot) = snd (onSnapshot st snapshot)"
| "handle st Dismissed = dismissAmberAlert st"

subsection \<open>Alert log projection (the handler of \<^verbatim>\<open>subscribeToAlerts\<close>)\<close>

text \<open>
  A record of the alert log. \<^verbatim>\<open>pushAlert\<close> writes the fields of its payload and the server
  timestamp, none of them named \<^verbatim>\<open>id\<close>; the store itself has no schema, so a raw record
  may carry an \<^verbatim>\<open>id\<close> of its own, and \<open>alert_id\<close> of a raw record is that field. In a
  projected record \<open>alert_id\<close> is the \<^verbatim>\<open>id\<close> the handler gives it.
\<close>

record alert =
  alert_nodeId :: "string option"
  alert_type :: "string option"
  alert_value :: "rat option"
  alert_threshold :: "rat option"
  alert_message :: "string option"
  alert_timestamp :: "int option"
  alert_id :: "string option"









subsection \<open>CSV export (\<^verbatim>\<open>alertsToCsv\<close>)\<close>

datatype js_error = RangeError

definition digit :: "int \<Rightarrow> char" where
  "digit n = ''0123456789'' ! nat (n mod 10)"

text \<open>The last \<open>w\<close> decimal digits of \<open>k\<close>, zero-padded.\<close>

fun pad_digits :: "nat \<Rightarrow> int \<Rightarrow> string" where
  "pad_digits 0 k = []"
| "pad_digits (Suc w) k = pad_digits w (k div 10) @ [digit k]"

text \<open>
  \<^verbatim>\<open>new Date(t).toISOString()\<close> of the runtime: year, month and day of the proleptic
  Gregorian calendar in UTC from the day number, the year with four digits from 0 to
  9999 and with a sign and six digits otherwise; a time value beyond 8.64e15 ms in
  magnitude is an invalid date, for which the call throws a \<^verbatim>\<open>RangeError\<close>.
\<close>

definition civil_from_days :: "int \<Rightarrow> int \<times> int \<times> int" where
  "civil_from_days days =
     (let z = days + 719468;
          era = z div 146097;
          doe = z mod 146097;
          yoe = (doe - doe div 1460 + doe div 36524 - doe div 146096) div 365;
          y = yoe + era * 400;
          doy = doe - (365 * yoe + yoe div 4 - yoe div 100);
          mp = (5 * doy + 2) div 153;
          d = doy - (153 * mp + 2) div 5 + 1;
          m = (if mp < 10 then mp + 3 else mp - 9)
      in (if m \<le> 2 then y + 1 else y, m, d))"

definition isoYear :: "int \<Rightarrow> string" where
  "isoYear y = (if 0 \<le> y \<and> y \<le> 9999 then pad_digits 4 y
                else (if y < 0 then ''-'' else ''+'') @ pad_digits 6 \<bar>y\<bar>)"

definition isoFormat :: "int \<Rightarrow> string" where
  "isoFormat t =
     (let (y, m, d) = civil_from_days (t div 86400000);
          ms = t mod 86400000
      in isoYear y @ ''-'' @ pad_digits 2 m @ ''-'' @ pad_digits 2 d @ ''T''
         @ pad_digits 2 (ms div 3600000) @ '':'' @ pad_digits 2 (ms div 60000 mod 60) @ '':''
         @ pad_digits 2 (ms div 1000 mod 60) @ ''.'' @ pad_digits 3 (ms mod 1000) @ ''Z'')"

definition toISOString :: "int \<Rightarrow> js_error + string" where
  "toISOString t = (if \<bar>t\<bar> > 8640000000000000 then Inl RangeError else Inr (isoFormat t))"

text \<open>
  The text of a number as \<^verbatim>\<open>Array.prototype.join\<close> writes it, in plain decimal notation:
  a sign, the digits of the integer part and, for a number that is not an integer, a
  point and the digits of the fraction (at most twenty).
\<close>

function int_digits :: "int \<Rightarrow> string" where
  "int_digits n = (if n < 10 then [digit n] else int_digits (n div 10) @ [digit n])"
  by pat_completeness auto
termination
  by (relation "measure nat") auto

declare int_digits.simps [simp del]

fun frac_digits :: "nat \<Rightarrow> rat \<Rightarrow> string" where
  "frac_digits 0 f = []"
| "frac_digits (Suc fuel) f =
     (if f = 0 then []
      else digit \<lfloor>f * 10\<rfloor> # frac_digits fuel (f * 10 - of_int \<lfloor>f * 10\<rfloor>))"

definition numToString :: "rat \<Rightarrow> string" where
  "numToString x =
     (let a = \<bar>x\<bar>; f = a - of_int \<lfloor>a\<rfloor>
      in (if x < 0 then ''-'' else [])
         @ int_digits \<lfloor>a\<rfloor>
         @ (if f = 0 then [] else ''.'' @ frac_digits 20 f))"

definition comma :: char where "comma = CHR '',''"
definition quote :: char where "quote = CHR 0x22"
definition newline :: char where "newline = CHR 0x0A"

text \<open>\<^verbatim>\<open>parts.join(sep)\<close>\<close>

fun join :: "string \<Rightarrow> string list \<Rightarrow> string" where
  "join sep [] = []"
| "join sep [x] = x"
| "join sep (x # y # ys) = x @ sep @ join sep (y # ys)"

text \<open>\<^verbatim>\<open>s ?? ''\<close> for a text field and for a number field put into the joined array.\<close>

definition textCell :: "string option \<Rightarrow> string" where
  "textCell v = (case v of None \<Rightarrow> [] | Some s \<Rightarrow> s)"

definition numCell :: "rat option \<Rightarrow> string" where
  "numCell v = (case v of None \<Rightarrow> [] | Some x \<Rightarrow> numToString x)"

text \<open>\<^verbatim>\<open>a.timestamp ? new Date(a.timestamp).toISOString() : ''\<close>\<close>

definition timestampCell :: "int option \<Rightarrow> js_error + string" where
  "timestampCell v =
     (case v of None \<Rightarrow> Inr [] | Some t \<Rightarrow> if t = 0 then Inr [] else toISOString t)"

text \<open>\<^verbatim>\<open>m.replace(/"/g, '""')\<close> and the quotes put around it.\<close>

definition escapeQuotes :: "string \<Rightarrow> string" where
  "escapeQuotes m = concat (map (\<lambda>c. if c = quote then [quote, quote] else [c]) m)"

definition messageCell :: "string option \<Rightarrow> string" where
  "messageCell v = [quote] @ escapeQuotes (textCell v) @ [quote]"

text \<open>The array of the seven cells of a row, and the row: its cells joined by commas.\<close>

definition csvCells :: "alert \<Rightarrow> js_error + string list" where
  "csvCells a =
     (case timestampCell (alert_timestamp a) of
        Inl e \<Rightarrow> Inl e
      | Inr ts \<Rightarrow>
          Inr [textCell (alert_id a), textCell (alert_nodeId a), textCell (alert_type a),
               numCell (alert_value a), numCell (alert_threshold a), ts,
               messageCell (alert_message a)])"

definition csvRow :: "alert \<Rightarrow> js_error + string" where
  "csvRow a = (case csvCells a of Inl e \<Rightarrow> Inl e | Inr cells \<Rightarrow> Inr (join [comma] cells))"

text \<open>\<^verbatim>\<open>alerts.map(...)\<close>: the first row that throws ends the export.\<close>

fun csvRows :: "alert list \<Rightarrow> js_error + string list" where
  "csvRows [] = Inr []"
| "csvRows (a # as) =
     (case csvRow a of
        Inl e \<Rightarrow> Inl e
      | Inr r \<Rightarrow> (case csvRows as of Inl e \<Rightarrow> Inl e | Inr rs \<Rightarrow> Inr (r # rs)))"

definition csvHeader :: string where
  "csvHeader = ''ID,Node,Type,Value,Threshold,Timestamp,Message'' @ [newline]"

definition alertsToCsv :: "alert list \<Rightarrow> js_error + string" where
  "alertsToCsv alerts =
     (case csvRows alerts of
        Inl e \<Rightarrow> Inl e
      | Inr rows \<Rightarrow> Inr (csvHeader @ join [newline] rows))"

text \<open>
  The export as the specification words it (section 6 and the round-trip property of
  section 8): the header, then for each record its fields with the timestamp rendered as
  an ISO-8601 string and the message quoted.
\<close>

definition timestampCell_spec :: "int option \<Rightarrow> string" where
  "timestampCell_spec v = (case v of None \<Rightarrow> [] | Some t \<Rightarrow> isoFormat t)"

definition csvRow_spec :: "alert \<Rightarrow> string" where
  "csvRow_spec a =
     join [comma]
       [textCell (alert_id a), textCell (alert_nodeId a), textCell (alert_type a),
        numCell (alert_value a), numCell (alert_threshold a),
        timestampCell_spec (alert_timestamp a), messageCell (alert_message a)]"

definition alertsToCsv_spec :: "alert list \<Rightarrow> string" where
  "alertsToCsv_spec alerts = csvHeader @ join [newline] (map csvRow_spec alerts)"




text \<open>A time value \<^verbatim>\<open>new Date\<close> accepts.\<close>

definition validTime :: "int \<Rightarrow> bool" where
  "validTime t = (\<bar>t\<bar> \<le> 8640000000000000)"

section \<open>Properties\<close>

subsection \<open>Double arithmetic\<close>

text \<open>
  The two auxiliary functions compute the powers of two and the floor of the binary
  logarithm, and the overflow bound is \<open>2\<^sup>1\<^sup>0\<^sup>2\<^sup>4\<close>.
\<close>

lemma pow2_nonneg: "0 \<le> e \<Longrightarrow> pow2 e = 2 ^ nat e"
proof (induction e rule: pow2.induct)
  case (1 e)
  show ?case
  proof (cases "e = 0")
    case True
    then show ?thesis by (simp add: pow2.simps)
  next
    case nz: False
    with "1.prems" have pos: "0 < e" by simp
    show ?thesis
    proof (cases "even e")
      case True
      have h: "pow2 (e div 2) = 2 ^ nat (e div 2)"
        using "1.IH" nz pos True by simp
      have "nat e = nat (e div 2) + nat (e div 2)"
        using True pos by (auto elim!: evenE simp: nat_mult_distrib)
      then have "(2::rat) ^ nat e = 2 ^ nat (e div 2) * 2 ^ nat (e div 2)"
        by (metis power_add)
      then show ?thesis
        using nz pos True h by (subst pow2.simps) simp
    next
      case False
      have h: "pow2 (e - 1) = 2 ^ nat (e - 1)"
        using "1.IH" nz pos False by simp
      have "nat e = Suc (nat (e - 1))" using pos by simp
      then have "(2::rat) ^ nat e = 2 * 2 ^ nat (e - 1)" by simp
      then show ?thesis
        using nz pos False h by (subst pow2.simps) simp
    qed
  qed
qed

lemma pow2_neg: "e < 0 \<Longrightarrow> pow2 e = 1 / 2 ^ nat (- e)"
  by (subst pow2.simps) (simp add: pow2_nonneg)

lemma double_overflow_power: "double_overflow = 2 ^ 1024"
  by (simp add: double_overflow_def)

lemma int_div_bounds:
  fixes n c :: int
  assumes "0 < c"
  shows "c * (n div c) \<le> n" and "n < c * (n div c + 1)"
proof -
  have e: "c * (n div c) = n - n mod c"
    by (simp add: minus_mod_eq_mult_div [symmetric])
  have m: "0 \<le> n mod c" "n mod c < c" using assms by simp_all
  show "c * (n div c) \<le> n" unfolding e using m by linarith
  show "n < c * (n div c + 1)" unfolding distrib_left e using m by simp
qed

lemma ilog2_nonneg: "0 \<le> ilog2 n"
  by (induction n rule: ilog2.induct) (subst ilog2.simps, simp)

lemma ilog2_bounds: "0 < n \<Longrightarrow> 2 ^ nat (ilog2 n) \<le> n \<and> n < 2 * 2 ^ nat (ilog2 n)"
proof (induction n rule: ilog2.induct)
  case (1 n)
  show ?case
  proof (cases "n < 2")
    case True
    with "1.prems" have "n = 1" by simp
    then show ?thesis by (simp add: ilog2.simps)
  next
    case n2: False
    show ?thesis
    proof (cases "18446744073709551616 \<le> n")
      case True
      let ?m = "n div 18446744073709551616"
      have mpos: "0 < ?m" using True by (simp add: pos_imp_zdiv_pos_iff)
      have ih: "2 ^ nat (ilog2 ?m) \<le> ?m \<and> ?m < 2 * 2 ^ nat (ilog2 ?m)"
        using "1.IH"(1) n2 True mpos by simp
      have eq: "ilog2 n = 64 + ilog2 ?m"
        using n2 True by (subst ilog2.simps) simp
      have p: "(2::int) ^ nat (ilog2 n) = 18446744073709551616 * 2 ^ nat (ilog2 ?m)"
        unfolding eq using ilog2_nonneg [of ?m] by (simp add: nat_add_distrib power_add)
      have lo: "18446744073709551616 * ?m \<le> n"
        by (rule int_div_bounds(1)) simp
      have hi: "n < 18446744073709551616 * (?m + 1)"
        by (rule int_div_bounds(2)) simp
      have "18446744073709551616 * 2 ^ nat (ilog2 ?m) \<le> 18446744073709551616 * ?m"
        using ih by simp
      moreover have "18446744073709551616 * (?m + 1) \<le> 18446744073709551616 * (2 * 2 ^ nat (ilog2 ?m))"
        using ih by simp
      ultimately show ?thesis unfolding p using lo hi by linarith
    next
      case False
      let ?m = "n div 2"
      have mpos: "0 < ?m" using n2 by simp
      have ih: "2 ^ nat (ilog2 ?m) \<le> ?m \<and> ?m < 2 * 2 ^ nat (ilog2 ?m)"
        using "1.IH"(2) n2 False mpos by simp
      have eq: "ilog2 n = 1 + ilog2 ?m"
        using n2 False by (subst ilog2.simps) simp
      have p: "(2::int) ^ nat (ilog2 n) = 2 * 2 ^ nat (ilog2 ?m)"
        unfolding eq using ilog2_nonneg [of ?m] by (simp add: nat_add_distrib)
      show ?thesis unfolding p using ih by linarith
    qed
  qed
qed

lemma pow2_power_int: "pow2 e = 2 powi e"
  by (cases "0 \<le> e") (simp_all add: pow2_nonneg pow2_neg power_int_def field_simps)

lemma floor_log2_bounds:
  assumes "0 < a"
  shows "pow2 (floor_log2 a) \<le> a \<and> a < pow2 (floor_log2 a + 1)"
proof -
  obtain p q where pq: "quotient_of a = (p, q)" by (cases "quotient_of a")
  have q: "0 < q" using pq by (rule quotient_of_denom_pos)
  have a: "a = of_int p / of_int q" using pq by (rule quotient_of_div)
  have p: "0 < p" using assms q unfolding a by (simp add: zero_less_divide_iff)
  let ?lp = "ilog2 p" and ?lq = "ilog2 q"
  let ?k = "?lp - ?lq"
  have bp: "2 ^ nat ?lp \<le> p" "p < 2 * 2 ^ nat ?lp" using ilog2_bounds [OF p] by simp_all
  have bq: "2 ^ nat ?lq \<le> q" "q < 2 * 2 ^ nat ?lq" using ilog2_bounds [OF q] by simp_all
  have rp: "(2::rat) powi ?lp \<le> of_int p" "of_int p < 2 * (2::rat) powi ?lp"
  proof -
    have "(of_int (2 ^ nat ?lp) :: rat) \<le> of_int p" using bp(1) by (simp only: of_int_le_iff)
    then show "(2::rat) powi ?lp \<le> of_int p"
      using ilog2_nonneg [of p] by (simp add: power_int_def)
    have "(of_int p :: rat) < of_int (2 * 2 ^ nat ?lp)" using bp(2) by (simp only: of_int_less_iff)
    then show "of_int p < 2 * (2::rat) powi ?lp"
      using ilog2_nonneg [of p] by (simp add: power_int_def)
  qed
  have rq: "(2::rat) powi ?lq \<le> of_int q" "of_int q < 2 * (2::rat) powi ?lq"
  proof -
    have "(of_int (2 ^ nat ?lq) :: rat) \<le> of_int q" using bq(1) by (simp only: of_int_le_iff)
    then show "(2::rat) powi ?lq \<le> of_int q"
      using ilog2_nonneg [of q] by (simp add: power_int_def)
    have "(of_int q :: rat) < of_int (2 * 2 ^ nat ?lq)" using bq(2) by (simp only: of_int_less_iff)
    then show "of_int q < 2 * (2::rat) powi ?lq"
      using ilog2_nonneg [of q] by (simp add: power_int_def)
  qed
  have P: "0 < (2::rat) powi ?lp" and Q: "0 < (2::rat) powi ?lq" by simp_all
  have qr: "0 < (of_int q :: rat)" using q by simp
  have k: "(2::rat) powi ?k = 2 powi ?lp / 2 powi ?lq"
    by (simp add: power_int_diff)
  have up: "a < 2 * 2 powi ?k"
  proof -
    have "of_int p * (2::rat) powi ?lq < (2 * 2 powi ?lp) * of_int q"
      using p Q by (intro mult_less_le_imp_less rp(2) rq(1)) simp_all
    then show ?thesis unfolding a k using Q qr by (simp add: field_simps)
  qed
  have low: "2 powi ?k / 2 < a"
  proof -
    have "2 powi ?lp * of_int q < of_int p * (2 * (2::rat) powi ?lq)"
      using q P by (intro mult_le_less_imp_less rp(1) rq(2)) simp_all
    then show ?thesis unfolding a k using Q qr by (simp add: field_simps)
  qed
  have s1: "(2::rat) powi (?k + 1) = 2 * 2 powi ?k" by (simp add: power_int_add)
  have s2: "(2::rat) powi (?k - 1) = 2 powi ?k / 2" by (simp add: power_int_diff)
  show ?thesis
  proof (cases "pow2 ?k \<le> a")
    case True
    then have f: "floor_log2 a = ?k" by (simp add: floor_log2_def pq Let_def)
    show ?thesis unfolding f pow2_power_int s1 using True up by (simp add: pow2_power_int)
  next
    case False
    then have f: "floor_log2 a = ?k - 1" by (simp add: floor_log2_def pq Let_def)
    have "(2::rat) powi (?k - 1 + 1) = 2 powi ?k" by simp
    then show ?thesis unfolding f pow2_power_int s2 using False low
      by (simp add: pow2_power_int)
  qed
qed

text \<open>
  Rounding to a double: a finite result is an integer of at most 53 bits times the unit
  in the last place of the binade of the argument (the exponent not below -1022), and it
  is within half that unit of the argument. Among the two nearest candidates of a tie
  \<^const>\<open>roundHalfEven\<close> takes the even one.
\<close>

lemma roundHalfEven_near: "\<bar>of_int (roundHalfEven y) - y\<bar> \<le> 1 / 2"
proof -
  have "of_int \<lfloor>y\<rfloor> \<le> y" "y < of_int \<lfloor>y\<rfloor> + 1" by linarith+
  then show ?thesis by (auto simp: roundHalfEven_def Let_def)
qed

lemma roundHalfEven_bounds:
  assumes "0 \<le> y" and "y < of_int N"
  shows "0 \<le> roundHalfEven y \<and> roundHalfEven y \<le> N"
proof -
  have "0 \<le> \<lfloor>y\<rfloor>" using assms(1) by simp
  moreover have "\<lfloor>y\<rfloor> < N" using assms(2) by (simp add: floor_less_iff)
  ultimately show ?thesis by (simp add: roundHalfEven_def Let_def)
qed

lemma toDouble_nearest:
  assumes "toDouble x = Num r"
  shows "\<exists>m. r = of_int m * pow2 (max (- 1022) (floor_log2 \<bar>x\<bar>) - 52)
           \<and> \<bar>m\<bar> \<le> 9007199254740992
           \<and> \<bar>r - x\<bar> \<le> pow2 (max (- 1022) (floor_log2 \<bar>x\<bar>) - 52) / 2"
proof (cases "x = 0")
  case True
  then have "r = 0" using assms by (simp add: toDouble_def)
  then show ?thesis using True by (intro exI [of _ 0]) (simp add: pow2_power_int)
next
  case nz: False
  define a where "a = \<bar>x\<bar>"
  define e where "e = max (- 1022) (floor_log2 a)"
  define ulp where "ulp = pow2 (e - 52)"
  define n where "n = roundHalfEven (a / ulp)"
  have apos: "0 < a" using nz by (simp add: a_def)
  have ulp: "0 < ulp" by (simp add: ulp_def pow2_power_int)
  have r: "r = (if x < 0 then - (of_int n * ulp) else of_int n * ulp)"
    using assms nz
    by (simp add: toDouble_def Let_def a_def [symmetric] e_def [symmetric] ulp_def [symmetric]
          n_def [symmetric] split: if_splits)
  have near: "\<bar>of_int n - a / ulp\<bar> \<le> 1 / 2" unfolding n_def by (rule roundHalfEven_near)
  have "of_int n * ulp - a = (of_int n - a / ulp) * ulp"
    using ulp by (simp add: left_diff_distrib)
  then have "\<bar>of_int n * ulp - a\<bar> = \<bar>of_int n - a / ulp\<bar> * \<bar>ulp\<bar>"
    by (simp only: abs_mult)
  also have "\<dots> = \<bar>of_int n - a / ulp\<bar> * ulp" using ulp by simp
  also have "\<dots> \<le> (1 / 2) * ulp" using near ulp by (intro mult_right_mono) simp_all
  finally have err: "\<bar>of_int n * ulp - a\<bar> \<le> ulp / 2" by simp
  have "a < pow2 (floor_log2 a + 1)" using floor_log2_bounds [OF apos] by simp
  also have "\<dots> \<le> pow2 (e + 1)"
    unfolding pow2_power_int e_def by (intro power_int_increasing) simp_all
  also have "\<dots> = 9007199254740992 * ulp"
  proof -
    have p53: "(2::rat) powi 53 = 9007199254740992" by (simp add: power_int_def)
    have "e + 1 = 53 + (e - 52)" by simp
    then have "(2::rat) powi (e + 1) = 2 powi (53 + (e - 52))" by (rule arg_cong)
    also have "\<dots> = 2 powi 53 * 2 powi (e - 52)" by (rule power_int_add) simp
    finally show ?thesis unfolding ulp_def pow2_power_int p53 .
  qed
  finally have "a / ulp < 9007199254740992" using ulp by (simp add: field_simps)
  moreover have "0 \<le> a / ulp" using apos ulp by simp
  ultimately have nb: "0 \<le> n \<and> n \<le> 9007199254740992"
    unfolding n_def using roundHalfEven_bounds [of "a / ulp" 9007199254740992] by simp
  have main: "\<exists>m. r = of_int m * ulp \<and> \<bar>m\<bar> \<le> 9007199254740992 \<and> \<bar>r - x\<bar> \<le> ulp / 2"
  proof (cases "x < 0")
    case True
    then have "r = of_int (- n) * ulp" and "\<bar>r - x\<bar> = \<bar>of_int n * ulp - a\<bar>"
      using r by (simp_all add: a_def abs_minus_commute)
    moreover have "\<bar>- n\<bar> \<le> 9007199254740992" using nb by simp
    ultimately show ?thesis using err by (intro exI [of _ "- n"]) (simp only: simp_thms)
  next
    case False
    then have "r = of_int n * ulp" and "\<bar>r - x\<bar> = \<bar>of_int n * ulp - a\<bar>"
      using r by (simp_all add: a_def)
    moreover have "\<bar>n\<bar> \<le> 9007199254740992" using nb by simp
    ultimately show ?thesis using err by (intro exI [of _ n]) (simp only: simp_thms)
  qed
  then show ?thesis unfolding ulp_def e_def a_def .
qed

text \<open>A result of magnitude \<open>2\<^sup>1\<^sup>0\<^sup>2\<^sup>4\<close> or more rounds to an infinity.\<close>

lemma roundHalfEven_ge: "of_int N \<le> y \<Longrightarrow> N \<le> roundHalfEven y"
proof -
  assume "of_int N \<le> y"
  then have "N \<le> \<lfloor>y\<rfloor>" by (simp add: le_floor_iff)
  then show ?thesis by (simp add: roundHalfEven_def Let_def)
qed

lemma toDouble_overflow:
  assumes "double_overflow \<le> x"
  shows "toDouble x = Infinity"
proof -
  have big: "(2::rat) powi 1024 \<le> x"
    using assms by (simp add: double_overflow_power power_int_def)
  have D: "double_overflow = 2 powi 1024"
    by (simp add: double_overflow_power power_int_def)
  have xpos: "0 < x"
    using big by (rule less_le_trans [rotated]) simp
  define e where "e = floor_log2 x"
  have fl: "2 powi e \<le> x" "x < 2 powi (e + 1)"
    using floor_log2_bounds [OF xpos] by (simp_all add: e_def pow2_power_int)
  have e: "1024 \<le> e"
  proof (rule ccontr)
    assume "\<not> 1024 \<le> e"
    then have "e + 1 \<le> 1024" by simp
    then have "(2::rat) powi (e + 1) \<le> 2 powi 1024" by (intro power_int_increasing) simp_all
    then show False using fl(2) big by simp
  qed
  then have m: "max (- 1022) e = e" by simp
  define ulp where "ulp = pow2 (e - 52)"
  have ulp: "0 < ulp" by (simp add: ulp_def pow2_power_int)
  have p52: "(2::rat) powi 52 = of_int 4503599627370496" by (simp add: power_int_def)
  have "e = 52 + (e - 52)" by simp
  then have "(2::rat) powi e = 2 powi (52 + (e - 52))" by (rule arg_cong)
  also have "\<dots> = 2 powi 52 * 2 powi (e - 52)" by (rule power_int_add) simp
  finally have pe: "(2::rat) powi e = of_int 4503599627370496 * ulp"
    unfolding ulp_def pow2_power_int p52 .
  have "of_int 4503599627370496 \<le> x / ulp"
    using fl(1) ulp unfolding pe by (simp add: pos_le_divide_eq)
  then have n: "4503599627370496 \<le> roundHalfEven (x / ulp)" by (rule roundHalfEven_ge)
  have "double_overflow \<le> 2 powi e"
    unfolding D using e by (intro power_int_increasing) simp_all
  also have "\<dots> \<le> of_int (roundHalfEven (x / ulp)) * ulp"
    unfolding pe using n ulp by (intro mult_right_mono) simp_all
  finally have r: "double_overflow \<le> of_int (roundHalfEven (x / ulp)) * ulp" .
  have "x \<noteq> 0" "\<bar>x\<bar> = x" using xpos by simp_all
  then show ?thesis
    using r xpos
    by (simp add: toDouble_def Let_def e_def [symmetric] m ulp_def [symmetric])
qed

lemma fadd_overflow:
  "fadd (Num (double_overflow / 2)) (Num (double_overflow / 2)) = Infinity"
proof -
  have nz: "double_overflow / 2 \<noteq> 0" by (simp add: double_overflow_def)
  show ?thesis using nz by (simp add: fadd_def toDouble_overflow)
qed

lemma fadd_zero: "fadd x (Num 0) = x"
  by (cases x) (simp_all add: fadd_def)

lemma toDouble_not_NaN: "toDouble x \<noteq> NaN"
  by (simp add: toDouble_def Let_def)

lemma fadd_Num_not_NaN: "x \<noteq> NaN \<Longrightarrow> fadd x (Num b) \<noteq> NaN"
  by (cases x) (simp_all add: fadd_def toDouble_not_NaN)

lemma sum_not_NaN: "x \<noteq> NaN \<Longrightarrow> foldl (\<lambda>acc k. fadd acc (Num (f k))) x ks \<noteq> NaN"
  by (induction ks arbitrary: x) (simp_all add: fadd_Num_not_NaN)

lemma fdiv_not_NaN: "x \<noteq> NaN \<Longrightarrow> n \<noteq> 0 \<Longrightarrow> fdiv x n \<noteq> NaN"
  by (cases x) (simp_all add: fdiv_def toDouble_not_NaN)

lemma parseFloat_toFixed1_not_NaN: "x \<noteq> NaN \<Longrightarrow> parseFloat_toFixed1 x \<noteq> NaN"
  by (cases x) (simp_all add: parseFloat_toFixed1_def toDouble_not_NaN)

text \<open>
  The rounding at known values: the doubles written \<^verbatim>\<open>0.1\<close>, \<^verbatim>\<open>20.1\<close> and \<^verbatim>\<open>20.2\<close>, the sum
  \<^verbatim>\<open>0.1 + 0.2\<close>, the quotient \<^verbatim>\<open>61 / 3\<close>, and
  \<^verbatim>\<open>parseFloat(((20.1 + 20.2) / 2).toFixed(1))\<close>, which is \<^verbatim>\<open>20.1\<close>, the quotient being just
  below 20.15.
\<close>

lemma toDouble_known_values:
  "toDouble (1 / 10) = Num (3602879701896397 / 36028797018963968)"
  "toDouble (201 / 10) = Num (2828823515942093 / 140737488355328)"
  "toDouble (202 / 10) = Num (5685794529555251 / 281474976710656)"
  "fadd (toDouble (1 / 10)) (toDouble (2 / 10)) = Num (1351079888211149 / 4503599627370496)"
  "fdiv (Num 61) 3 = Num (5723324526450005 / 281474976710656)"
  "parseFloat_toFixed1 (fdiv (fadd (toDouble (201 / 10)) (toDouble (202 / 10))) 2)
     = Num (2828823515942093 / 140737488355328)"
  by code_simp+

subsection \<open>Unit classifier\<close>

text \<open>
  The classifier in tiers, for every reading, thresholds and clock value: a reading
  counts as stale when its timestamp is absent, is the number 0, or is older than
  120000 ms.
\<close>

lemma getNodeStatus_tiers:
  "getNodeStatus now r th =
     classify_tiers
       (case r of None \<Rightarrow> True
        | Some n \<Rightarrow> timestamp n = None \<or> timestamp n = Some 0 \<or> isStale_spec (timestamp n) now)
       r th"
  by (auto simp: getNodeStatus_def classify_tiers_def isNodeStale_def isStale_spec_def
        STALE_THRESHOLD_MS_def Let_def split: option.splits)



text \<open>
  Claim C6: two readings that agree on humidity, temperature and timestamp get the same
  status, whatever their battery fields, for every thresholds object and clock value.
\<close>

theorem status_ignores_battery:
  assumes "hum r1 = hum r2" and "temp r1 = temp r2" and "timestamp r1 = timestamp r2"
  shows "getNodeStatus now (Some r1) th = getNodeStatus now (Some r2) th"
  using assms by (simp add: getNodeStatus_def)

theorem status_ignores_battery_witness:
  "battery \<lparr>hum = Some 70, temp = Some 20, battery = Some 90, timestamp = Some 1000000\<rparr>
     \<noteq> battery \<lparr>hum = Some 70, temp = Some 20, battery = Some 3, timestamp = Some 1000000\<rparr>
   \<and> getNodeStatus 1000500
        (Some \<lparr>hum = Some 70, temp = Some 20, battery = Some 90, timestamp = Some 1000000\<rparr>)
        DEFAULT_THRESHOLDS = Critical
   \<and> getNodeStatus 1000500
        (Some \<lparr>hum = Some 70, temp = Some 20, battery = Some 3, timestamp = Some 1000000\<rparr>)
        DEFAULT_THRESHOLDS = Critical"
  using status_ignores_battery
    [of "\<lparr>hum = Some 70, temp = Some 20, battery = Some 90, timestamp = Some 1000000\<rparr>"
        "\<lparr>hum = Some 70, temp = Some 20, battery = Some 3, timestamp = Some 1000000\<rparr>"
        1000500 DEFAULT_THRESHOLDS]
  by (simp add: getNodeStatus_def isNodeStale_def STALE_THRESHOLD_MS_def
        DEFAULT_THRESHOLDS_def js_gt_def js_times_def)

text \<open>
  Claim C10: a reading that is not stale (its timestamp is present and within 120000 ms
  of the clock) and has neither a humidity nor a temperature is classified Optimal; in
  the aggregation loop its unit is counted as online and leaves the temperature and
  humidity sums as they were.
\<close>

theorem fresh_without_values:
  assumes "\<not> isNodeStale now (timestamp n)"
    and "timestamp n = Some t" and "now - t \<le> 120000"
    and "hum n = None" and "temp n = None"
    and "js_get readings k = Some n"
  shows "getNodeStatus now (Some n) th = Optimal
       \<and> onlineCount (loop_body now readings th s k) = onlineCount s + 1
       \<and> tempSum (loop_body now readings th s k) = tempSum s
       \<and> humSum (loop_body now readings th s k) = humSum s"
proof -
  have st: "getNodeStatus now (Some n) th = Optimal"
    using assms by (simp add: getNodeStatus_def js_gt_def)
  show ?thesis
    using st assms(4-6) by (simp add: loop_body_def Let_def field_def orZero_def fadd_zero)
qed

theorem fresh_without_values_witness:
  "\<not> isNodeStale 1000500 (Some 1000000) \<and> 1000500 - 1000000 \<le> (120000 :: int)
   \<and> getNodeStatus 1000500
        (Some \<lparr>hum = None, temp = None, battery = Some 80, timestamp = Some 1000000\<rparr>)
        DEFAULT_THRESHOLDS = Optimal
   \<and> onlineCount (loop_body 1000500
        [(''n1'', Some \<lparr>hum = None, temp = None, battery = Some 80, timestamp = Some 1000000\<rparr>)]
        DEFAULT_THRESHOLDS agg_init ''n1'') = 1
   \<and> tempSum (loop_body 1000500
        [(''n1'', Some \<lparr>hum = None, temp = None, battery = Some 80, timestamp = Some 1000000\<rparr>)]
        DEFAULT_THRESHOLDS agg_init ''n1'') = Num 0
   \<and> humSum (loop_body 1000500
        [(''n1'', Some \<lparr>hum = None, temp = None, battery = Some 80, timestamp = Some 1000000\<rparr>)]
        DEFAULT_THRESHOLDS agg_init ''n1'') = Num 0"
  using fresh_without_values
    [of 1000500 "\<lparr>hum = None, temp = None, battery = Some 80, timestamp = Some 1000000\<rparr>"
        1000000
        "[(''n1'', Some \<lparr>hum = None, temp = None, battery = Some 80, timestamp = Some 1000000\<rparr>)]"
        "''n1''" DEFAULT_THRESHOLDS agg_init]
  by (simp add: isNodeStale_def STALE_THRESHOLD_MS_def js_get_def agg_init_def)

subsection \<open>The aggregation loop\<close>

lemma loop_body_onlineCount:
  "onlineCount (loop_body now readings th s k) =
     onlineCount s + (if unitStatus now readings th k \<noteq> Offline then 1 else 0)"
  by (simp add: loop_body_def unitStatus_def Let_def)

lemma loop_body_atRiskCount:
  "atRiskCount (loop_body now readings th s k) =
     atRiskCount s + (if unitStatus now readings th k = At_Risk then 1 else 0)"
  by (simp add: loop_body_def unitStatus_def Let_def)

lemma loop_body_criticalCount:
  "criticalCount (loop_body now readings th s k) =
     criticalCount s + (if unitStatus now readings th k = Critical then 1 else 0)"
  by (simp add: loop_body_def unitStatus_def Let_def)

lemma loop_body_tempSum:
  "tempSum (loop_body now readings th s k) =
     (if unitStatus now readings th k \<noteq> Offline
      then fadd (tempSum s) (Num (orZero (field temp (js_get readings k))))
      else tempSum s)"
  by (simp add: loop_body_def unitStatus_def Let_def)

lemma loop_body_humSum:
  "humSum (loop_body now readings th s k) =
     (if unitStatus now readings th k \<noteq> Offline
      then fadd (humSum s) (Num (orZero (field hum (js_get readings k))))
      else humSum s)"
  by (simp add: loop_body_def unitStatus_def Let_def)

lemma loop_body_lowBattery:
  "lowBatteryNodes_acc (loop_body now readings th s k) =
     lowBatteryNodes_acc s @
       (if unitStatus now readings th k \<noteq> Offline
           \<and> field battery (js_get readings k) \<noteq> None
           \<and> js_lt (field battery (js_get readings k)) (min_battery th)
        then [k] else [])"
  by (simp add: loop_body_def unitStatus_def Let_def)

lemma loop_body_enriched:
  "enrichedNodes_acc (loop_body now readings th s k) =
     AList.update k (enrich now k (js_get readings k) (unitStatus now readings th k))
       (enrichedNodes_acc s)"
  by (simp add: loop_body_def unitStatus_def Let_def)

lemma loop_onlineCount:
  "onlineCount (foldl (loop_body now readings th) s ks) =
     onlineCount s + int (length (filter (\<lambda>k. unitStatus now readings th k \<noteq> Offline) ks))"
  by (induction ks arbitrary: s) (simp_all add: loop_body_onlineCount)

lemma loop_atRiskCount:
  "atRiskCount (foldl (loop_body now readings th) s ks) =
     atRiskCount s + int (length (filter (\<lambda>k. unitStatus now readings th k = At_Risk) ks))"
  by (induction ks arbitrary: s) (simp_all add: loop_body_atRiskCount)

lemma loop_criticalCount:
  "criticalCount (foldl (loop_body now readings th) s ks) =
     criticalCount s + int (length (filter (\<lambda>k. unitStatus now readings th k = Critical) ks))"
  by (induction ks arbitrary: s) (simp_all add: loop_body_criticalCount)

lemma loop_tempSum:
  "tempSum (foldl (loop_body now readings th) s ks) =
     foldl (\<lambda>acc k. fadd acc (Num (orZero (field temp (js_get readings k))))) (tempSum s)
       (filter (\<lambda>k. unitStatus now readings th k \<noteq> Offline) ks)"
  by (induction ks arbitrary: s) (simp_all add: loop_body_tempSum)

lemma loop_humSum:
  "humSum (foldl (loop_body now readings th) s ks) =
     foldl (\<lambda>acc k. fadd acc (Num (orZero (field hum (js_get readings k))))) (humSum s)
       (filter (\<lambda>k. unitStatus now readings th k \<noteq> Offline) ks)"
  by (induction ks arbitrary: s) (simp_all add: loop_body_humSum)

lemma loop_lowBattery:
  "lowBatteryNodes_acc (foldl (loop_body now readings th) s ks) =
     lowBatteryNodes_acc s @
       filter (\<lambda>k. unitStatus now readings th k \<noteq> Offline
                  \<and> field battery (js_get readings k) \<noteq> None
                  \<and> js_lt (field battery (js_get readings k)) (min_battery th)) ks"
  by (induction ks arbitrary: s) (simp_all add: loop_body_lowBattery)

lemma update_fresh_key: "k \<notin> fst ` set xs \<Longrightarrow> AList.update k v xs = xs @ [(k, v)]"
  by (induction xs) auto

lemma loop_enriched:
  "distinct ks \<Longrightarrow> set ks \<inter> fst ` set (enrichedNodes_acc s) = {} \<Longrightarrow>
   enrichedNodes_acc (foldl (loop_body now readings th) s ks) =
     enrichedNodes_acc s @
       map (\<lambda>k. (k, enrich now k (js_get readings k) (unitStatus now readings th k))) ks"
proof (induction ks arbitrary: s)
  case Nil
  then show ?case by simp
next
  case (Cons k ks)
  have fresh: "k \<notin> fst ` set (enrichedNodes_acc s)"
    using Cons.prems(2) by auto
  have step: "enrichedNodes_acc (loop_body now readings th s k) =
      enrichedNodes_acc s @ [(k, enrich now k (js_get readings k) (unitStatus now readings th k))]"
    by (simp add: loop_body_enriched update_fresh_key [OF fresh])
  have disj: "set ks \<inter> fst ` set (enrichedNodes_acc (loop_body now readings th s k)) = {}"
    using Cons.prems by (auto simp: step)
  show ?case
    using Cons.IH [OF _ disj] Cons.prems(1) by (simp add: step)
qed

subsection \<open>Fleet snapshot\<close>

lemma keys_empty: "Object_keys readings = [] \<longleftrightarrow> readings = []"
  by (simp add: Object_keys_def)

lemma getWarehouseStatus_empty:
  "getWarehouseStatus now [] th =
     \<lparr>overallStatus = No_Data, averageTemp = Num 0, averageHum = Num 0,
      totalNodes = 0, onlineNodes = 0, offlineNodes = 0, atRiskNodesCount = 0,
      criticalNodesCount = 0, lowBatteryNodes = [], enrichedNodes = []\<rparr>"
  by (simp add: getWarehouseStatus_def Object_keys_def)

lemma getWarehouseStatus_loop:
  assumes "readings \<noteq> []"
    and "s = foldl (loop_body now readings th) agg_init (Object_keys readings)"
  shows "getWarehouseStatus now readings th =
     \<lparr>overallStatus = (if criticalCount s > 0 then Critical
                        else if atRiskCount s > 0 then At_Risk
                        else if onlineCount s = 0 then No_Data
                        else Optimal),
      averageTemp = (if onlineCount s > 0
                     then parseFloat_toFixed1 (fdiv (tempSum s) (onlineCount s))
                     else Num 0),
      averageHum = (if onlineCount s > 0
                    then parseFloat_toFixed1 (fdiv (humSum s) (onlineCount s))
                    else Num 0),
      totalNodes = int (length readings),
      onlineNodes = onlineCount s,
      offlineNodes = int (length readings) - onlineCount s,
      atRiskNodesCount = atRiskCount s,
      criticalNodesCount = criticalCount s,
      lowBatteryNodes = lowBatteryNodes_acc s,
      enrichedNodes = enrichedNodes_acc s\<rparr>"
proof -
  have ne: "length (Object_keys readings) \<noteq> 0"
    using assms(1) by (simp add: Object_keys_def)
  have len: "length (Object_keys readings) = length readings"
    by (simp add: Object_keys_def)
  show ?thesis
    unfolding getWarehouseStatus_def Let_def assms(2) using ne len by (simp only: if_False)
qed

lemma agg_init_fields:
  "tempSum agg_init = Num 0" "humSum agg_init = Num 0" "onlineCount agg_init = 0"
  "atRiskCount agg_init = 0" "criticalCount agg_init = 0"
  "lowBatteryNodes_acc agg_init = []" "enrichedNodes_acc agg_init = []"
  by (simp_all add: agg_init_def)

lemma snapshot_criticalNodesCount:
  "criticalNodesCount (getWarehouseStatus now readings th) =
     int (length (filter (\<lambda>k. unitStatus now readings th k = Critical) (Object_keys readings)))"
proof (cases "readings = []")
  case True
  then show ?thesis by (simp add: getWarehouseStatus_empty Object_keys_def)
next
  case False
  show ?thesis
    by (simp add: getWarehouseStatus_loop [OF False refl] loop_criticalCount agg_init_fields)
qed

lemma snapshot_atRiskNodesCount:
  "atRiskNodesCount (getWarehouseStatus now readings th) =
     int (length (filter (\<lambda>k. unitStatus now readings th k = At_Risk) (Object_keys readings)))"
proof (cases "readings = []")
  case True
  then show ?thesis by (simp add: getWarehouseStatus_empty Object_keys_def)
next
  case False
  show ?thesis
    by (simp add: getWarehouseStatus_loop [OF False refl] loop_atRiskCount agg_init_fields)
qed

lemma snapshot_onlineNodes:
  "onlineNodes (getWarehouseStatus now readings th) =
     int (length (filter (\<lambda>k. unitStatus now readings th k \<noteq> Offline) (Object_keys readings)))"
proof (cases "readings = []")
  case True
  then show ?thesis by (simp add: getWarehouseStatus_empty Object_keys_def)
next
  case False
  show ?thesis
    by (simp add: getWarehouseStatus_loop [OF False refl] loop_onlineCount agg_init_fields)
qed

lemmas snapshot_counts = snapshot_criticalNodesCount snapshot_atRiskNodesCount snapshot_onlineNodes

lemma snapshot_overall:
  "overallStatus (getWarehouseStatus now readings th) =
     (if readings = [] then No_Data
      else if criticalNodesCount (getWarehouseStatus now readings th) > 0 then Critical
      else if atRiskNodesCount (getWarehouseStatus now readings th) > 0 then At_Risk
      else if onlineNodes (getWarehouseStatus now readings th) = 0 then No_Data
      else Optimal)"
proof (cases "readings = []")
  case True
  then show ?thesis by (simp add: getWarehouseStatus_empty)
next
  case False
  show ?thesis
    using False by (simp add: getWarehouseStatus_loop [OF False refl])
qed

lemma filter_nonempty_iff: "0 < int (length (filter P xs)) \<longleftrightarrow> (\<exists>x\<in>set xs. P x)"
  by (simp add: filter_empty_conv)

lemma filter_empty_iff: "int (length (filter P xs)) = 0 \<longleftrightarrow> (\<forall>x\<in>set xs. \<not> P x)"
  by (simp add: filter_empty_conv)

text \<open>
  Claim C2: the overall status of the snapshot is Critical when some unit classifies as
  Critical, else At Risk when some unit classifies as At Risk, else No Data when the
  online count is zero, else Optimal; for the empty readings map it is No Data. So it is
  Critical exactly when some online unit is Critical, and No Data exactly when the map is
  empty or no unit is online.
\<close>

theorem overallStatus_precedence:
  "overallStatus (getWarehouseStatus now readings th) =
     (if readings = [] then No_Data
      else if \<exists>k\<in>set (Object_keys readings). unitStatus now readings th k = Critical
        then Critical
      else if \<exists>k\<in>set (Object_keys readings). unitStatus now readings th k = At_Risk
        then At_Risk
      else if onlineNodes (getWarehouseStatus now readings th) = 0 then No_Data
      else Optimal)
   \<and> (overallStatus (getWarehouseStatus now readings th) = Critical \<longleftrightarrow>
        (\<exists>k\<in>set (Object_keys readings).
           unitStatus now readings th k \<noteq> Offline \<and> unitStatus now readings th k = Critical))
   \<and> (overallStatus (getWarehouseStatus now readings th) = No_Data \<longleftrightarrow>
        readings = [] \<or> (\<forall>k\<in>set (Object_keys readings). unitStatus now readings th k = Offline))
   \<and> (onlineNodes (getWarehouseStatus now readings th) = 0 \<longleftrightarrow>
        (\<forall>k\<in>set (Object_keys readings). unitStatus now readings th k = Offline))"
proof -
  let ?w = "getWarehouseStatus now readings th"
  let ?ks = "Object_keys readings"
  have c: "0 < criticalNodesCount ?w \<longleftrightarrow> (\<exists>k\<in>set ?ks. unitStatus now readings th k = Critical)"
    by (simp only: snapshot_counts filter_nonempty_iff)
  have a: "0 < atRiskNodesCount ?w \<longleftrightarrow> (\<exists>k\<in>set ?ks. unitStatus now readings th k = At_Risk)"
    by (simp only: snapshot_counts filter_nonempty_iff)
  have z: "onlineNodes ?w = 0 \<longleftrightarrow> (\<forall>k\<in>set ?ks. unitStatus now readings th k = Offline)"
    by (simp only: snapshot_counts filter_empty_iff) simp
  have p1: "overallStatus ?w =
     (if readings = [] then No_Data
      else if \<exists>k\<in>set ?ks. unitStatus now readings th k = Critical then Critical
      else if \<exists>k\<in>set ?ks. unitStatus now readings th k = At_Risk then At_Risk
      else if onlineNodes ?w = 0 then No_Data
      else Optimal)"
    using snapshot_overall [of now readings th] c a by simp
  have online_crit: "\<And>s::status. (s \<noteq> Offline \<and> s = Critical) \<longleftrightarrow> s = Critical"
    by auto
  have no_keys: "readings = [] \<Longrightarrow> set ?ks = {}"
    by (simp add: Object_keys_def)
  have p2: "overallStatus ?w = Critical \<longleftrightarrow>
        (\<exists>k\<in>set ?ks. unitStatus now readings th k \<noteq> Offline \<and> unitStatus now readings th k = Critical)"
    unfolding online_crit using p1 no_keys by (cases "readings = []") auto
  have p3: "overallStatus ?w = No_Data \<longleftrightarrow>
        readings = [] \<or> (\<forall>k\<in>set ?ks. unitStatus now readings th k = Offline)"
    using p1 z by (cases "readings = []") auto
  show ?thesis using p1 p2 p3 z by blast
qed

lemma toFixed1_tenths: "\<exists>n::int. toFixed1 x = of_int n / 10"
  by (auto simp: toFixed1_def) (metis of_int_minus minus_divide_left)

lemma toFixed1_near: "\<bar>toFixed1 x - x\<bar> \<le> 1 / 20"
proof -
  have r: "\<bar>of_int \<lfloor>y * 10 + 1 / 2\<rfloor> / 10 - y\<bar> \<le> 1 / 20" for y :: rat
  proof -
    have "of_int \<lfloor>y * 10 + 1 / 2\<rfloor> \<le> y * 10 + 1 / 2" by (rule of_int_floor_le)
    moreover have "y * 10 + 1 / 2 < of_int \<lfloor>y * 10 + 1 / 2\<rfloor> + 1" by linarith
    ultimately show ?thesis by linarith
  qed
  show ?thesis
  proof (cases "x < 0")
    case True
    have "toFixed1 x - x = - (of_int \<lfloor>(- x) * 10 + 1 / 2\<rfloor> / 10 - (- x))"
      using True by (simp add: toFixed1_def)
    then have "\<bar>toFixed1 x - x\<bar> = \<bar>of_int \<lfloor>(- x) * 10 + 1 / 2\<rfloor> / 10 - (- x)\<bar>"
      by (simp only: abs_minus_cancel)
    then show ?thesis using r [of "- x"] by (simp only:)
  next
    case False
    then have "toFixed1 x = of_int \<lfloor>x * 10 + 1 / 2\<rfloor> / 10"
      by (simp add: toFixed1_def)
    then show ?thesis using r [of x] by (simp only:)
  qed
qed

lemma parseFloat_toFixed1_tenths:
  assumes "\<bar>a\<bar> < 1000000000000000000000"
  shows "\<exists>n::int. parseFloat_toFixed1 (Num a) = toDouble (of_int n / 10)
            \<and> \<bar>of_int n / 10 - a\<bar> \<le> 1 / 20"
proof -
  obtain n :: int where n: "toFixed1 a = of_int n / 10"
    using toFixed1_tenths by blast
  have "parseFloat_toFixed1 (Num a) = toDouble (of_int n / 10)"
    using assms by (simp add: parseFloat_toFixed1_def n)
  moreover have "\<bar>of_int n / 10 - a\<bar> \<le> 1 / 20"
    using toFixed1_near [of a] by (simp only: n)
  ultimately show ?thesis by blast
qed

lemma snapshot_averageTemp:
  "averageTemp (getWarehouseStatus now readings th) =
     (if onlineNodes (getWarehouseStatus now readings th) > 0
      then parseFloat_toFixed1
             (fdiv (foldl (\<lambda>acc k. fadd acc
                       (Num (case field temp (js_get readings k) of None \<Rightarrow> 0 | Some v \<Rightarrow> v)))
                      (Num 0)
                      (filter (\<lambda>k. unitStatus now readings th k \<noteq> Offline)
                         (Object_keys readings)))
                (onlineNodes (getWarehouseStatus now readings th)))
      else Num 0)"
proof (cases "readings = []")
  case True
  then show ?thesis by (simp add: getWarehouseStatus_empty Object_keys_def)
next
  case False
  show ?thesis
    by (simp add: getWarehouseStatus_loop [OF False refl] loop_tempSum loop_onlineCount
          agg_init_fields orZero_def)
qed

lemma snapshot_averageHum:
  "averageHum (getWarehouseStatus now readings th) =
     (if onlineNodes (getWarehouseStatus now readings th) > 0
      then parseFloat_toFixed1
             (fdiv (foldl (\<lambda>acc k. fadd acc
                       (Num (case field hum (js_get readings k) of None \<Rightarrow> 0 | Some v \<Rightarrow> v)))
                      (Num 0)
                      (filter (\<lambda>k. unitStatus now readings th k \<noteq> Offline)
                         (Object_keys readings)))
                (onlineNodes (getWarehouseStatus now readings th)))
      else Num 0)"
proof (cases "readings = []")
  case True
  then show ?thesis by (simp add: getWarehouseStatus_empty Object_keys_def)
next
  case False
  show ?thesis
    by (simp add: getWarehouseStatus_loop [OF False refl] loop_humSum loop_onlineCount
          agg_init_fields orZero_def)
qed

text \<open>
  Claim C5: when no unit is online (the online count is zero, as when every unit is stale
  or absent) both averages are exactly 0; no average is ever \<^verbatim>\<open>NaN\<close>, the division never
  meeting a zero online count; and when some unit is online each average is the sum over
  the online units, taken in the order of the keys (an absent value counting 0), divided
  by the online count and rounded to one decimal place, all in the arithmetic of
  doubles. For a quotient below \<^verbatim>\<open>1e21\<close> in magnitude the rounded value is the double
  nearest to a multiple of one tenth that is at most one twentieth away from the
  quotient.
\<close>

theorem averages_defined:
  fixes now readings th
  defines "w \<equiv> getWarehouseStatus now readings th"
    and "online \<equiv> filter (\<lambda>k. unitStatus now readings th k \<noteq> Offline) (Object_keys readings)"
  shows "(onlineNodes w = 0 \<longrightarrow> averageTemp w = Num 0 \<and> averageHum w = Num 0)
       \<and> ((\<forall>k\<in>set (Object_keys readings). unitStatus now readings th k = Offline)
            \<longrightarrow> averageTemp w = Num 0 \<and> averageHum w = Num 0)
       \<and> averageTemp w \<noteq> NaN \<and> averageHum w \<noteq> NaN
       \<and> onlineNodes w = int (length online)
       \<and> (onlineNodes w > 0 \<longrightarrow>
            averageTemp w =
              parseFloat_toFixed1
                (fdiv (foldl (\<lambda>acc k. fadd acc
                       (Num (case field temp (js_get readings k) of None \<Rightarrow> 0 | Some v \<Rightarrow> v)))
                         (Num 0) online)
                   (onlineNodes w))
          \<and> averageHum w =
              parseFloat_toFixed1
                (fdiv (foldl (\<lambda>acc k. fadd acc
                       (Num (case field hum (js_get readings k) of None \<Rightarrow> 0 | Some v \<Rightarrow> v)))
                         (Num 0) online)
                   (onlineNodes w)))
       \<and> (\<forall>a. \<bar>a\<bar> < 1000000000000000000000 \<longrightarrow>
             (\<exists>n::int. parseFloat_toFixed1 (Num a) = toDouble (of_int n / 10)
                \<and> \<bar>of_int n / 10 - a\<bar> \<le> 1 / 20))"
proof -
  let ?tsum = "foldl (\<lambda>acc k. fadd acc
                       (Num (case field temp (js_get readings k) of None \<Rightarrow> 0 | Some v \<Rightarrow> v)))
                         (Num 0) online"
  let ?hsum = "foldl (\<lambda>acc k. fadd acc
                       (Num (case field hum (js_get readings k) of None \<Rightarrow> 0 | Some v \<Rightarrow> v)))
                         (Num 0) online"
  have n: "onlineNodes w = int (length online)"
    unfolding w_def online_def by (rule snapshot_onlineNodes)
  have z: "(\<forall>k\<in>set (Object_keys readings). unitStatus now readings th k = Offline)
      \<Longrightarrow> onlineNodes w = 0"
    unfolding n online_def by (simp add: filter_empty_conv)
  have t: "averageTemp w =
      (if onlineNodes w > 0 then parseFloat_toFixed1 (fdiv ?tsum (onlineNodes w)) else Num 0)"
    unfolding w_def online_def by (rule snapshot_averageTemp)
  have h: "averageHum w =
      (if onlineNodes w > 0 then parseFloat_toFixed1 (fdiv ?hsum (onlineNodes w)) else Num 0)"
    unfolding w_def online_def by (rule snapshot_averageHum)
  have a: "onlineNodes w = 0 \<longrightarrow> averageTemp w = Num 0 \<and> averageHum w = Num 0"
    using t h by simp
  have b: "(\<forall>k\<in>set (Object_keys readings). unitStatus now readings th k = Offline)
            \<longrightarrow> averageTemp w = Num 0 \<and> averageHum w = Num 0"
    using a z by blast
  have tn: "?tsum \<noteq> NaN" by (rule sum_not_NaN) simp
  have hn: "?hsum \<noteq> NaN" by (rule sum_not_NaN) simp
  have c: "averageTemp w \<noteq> NaN \<and> averageHum w \<noteq> NaN"
  proof (cases "onlineNodes w > 0")
    case True
    then have "fdiv ?tsum (onlineNodes w) \<noteq> NaN" "fdiv ?hsum (onlineNodes w) \<noteq> NaN"
      using tn hn by (simp_all add: fdiv_not_NaN)
    then show ?thesis
      using True t h by (simp add: parseFloat_toFixed1_not_NaN)
  next
    case False
    then show ?thesis using t h by simp
  qed
  have d: "onlineNodes w > 0 \<longrightarrow>
            averageTemp w = parseFloat_toFixed1 (fdiv ?tsum (onlineNodes w))
          \<and> averageHum w = parseFloat_toFixed1 (fdiv ?hsum (onlineNodes w))"
    using t h by simp
  have e: "\<forall>a. \<bar>a\<bar> < 1000000000000000000000 \<longrightarrow>
             (\<exists>n::int. parseFloat_toFixed1 (Num a) = toDouble (of_int n / 10)
                \<and> \<bar>of_int n / 10 - a\<bar> \<le> 1 / 20)"
    using parseFloat_toFixed1_tenths by blast
  show ?thesis using a b c n d e by blast
qed

text \<open>
  The averages are not always finite: the sum of two finite temperatures can overflow,
  and the average is then an infinity.
\<close>

lemma averageTemp_overflow:
  "onlineNodes (getWarehouseStatus 1000500 fleet_huge DEFAULT_THRESHOLDS) = 2
   \<and> averageTemp (getWarehouseStatus 1000500 fleet_huge DEFAULT_THRESHOLDS) = Infinity
   \<and> averageHum (getWarehouseStatus 1000500 fleet_huge DEFAULT_THRESHOLDS) = Num 50"
proof -
  let ?w = "getWarehouseStatus 1000500 fleet_huge DEFAULT_THRESHOLDS"
  have online: "filter (\<lambda>k. unitStatus 1000500 fleet_huge DEFAULT_THRESHOLDS k \<noteq> Offline)
      (Object_keys fleet_huge) = [''n1'', ''n2'']"
    by code_simp
  have n: "onlineNodes ?w = 2"
    unfolding snapshot_onlineNodes online by simp
  have t: "field temp (js_get fleet_huge ''n1'') = Some (double_overflow / 2)"
      "field temp (js_get fleet_huge ''n2'') = Some (double_overflow / 2)"
    by (simp_all add: fleet_huge_def js_get_def field_def)
  have h: "field hum (js_get fleet_huge ''n1'') = Some 50"
      "field hum (js_get fleet_huge ''n2'') = Some 50"
    by (simp_all add: fleet_huge_def js_get_def field_def)
  have nz: "double_overflow / 2 \<noteq> 0" by (simp add: double_overflow_def)
  have first: "fadd (Num 0) (Num (double_overflow / 2)) = Num (double_overflow / 2)"
    using nz by (simp add: fadd_def)
  have tavg: "averageTemp ?w = Infinity"
    unfolding snapshot_averageTemp online n
    by (simp add: t first fadd_overflow fdiv_def parseFloat_toFixed1_def)
  have hsum: "parseFloat_toFixed1 (fdiv (fadd (fadd (Num 0) (Num 50)) (Num 50)) 2) = Num 50"
    by code_simp
  have havg: "averageHum ?w = Num 50"
    unfolding snapshot_averageHum online n by (simp add: h hsum)
  show ?thesis using n tavg havg by simp
qed

lemma filter_two_le:
  "(\<And>x. P x \<Longrightarrow> R x) \<Longrightarrow> (\<And>x. Q x \<Longrightarrow> R x) \<Longrightarrow> (\<And>x. P x \<Longrightarrow> \<not> Q x) \<Longrightarrow>
   length (filter P xs) + length (filter Q xs) \<le> length (filter R xs)"
  by (induction xs) auto

lemma snapshot_totalNodes:
  "totalNodes (getWarehouseStatus now readings th) = int (length readings)"
proof (cases "readings = []")
  case True
  then show ?thesis by (simp add: getWarehouseStatus_empty)
next
  case False
  show ?thesis by (simp add: getWarehouseStatus_loop [OF False refl])
qed

lemma snapshot_offlineNodes:
  "offlineNodes (getWarehouseStatus now readings th) =
     int (length readings) - onlineNodes (getWarehouseStatus now readings th)"
proof (cases "readings = []")
  case True
  then show ?thesis by (simp add: getWarehouseStatus_empty)
next
  case False
  show ?thesis by (simp add: getWarehouseStatus_loop [OF False refl])
qed

lemma snapshot_lowBattery:
  "lowBatteryNodes (getWarehouseStatus now readings th) =
     filter (\<lambda>k. unitStatus now readings th k \<noteq> Offline
                \<and> field battery (js_get readings k) \<noteq> None
                \<and> js_lt (field battery (js_get readings k)) (min_battery th))
       (Object_keys readings)"
proof (cases "readings = []")
  case True
  then show ?thesis by (simp add: getWarehouseStatus_empty Object_keys_def)
next
  case False
  show ?thesis
    by (simp add: getWarehouseStatus_loop [OF False refl] loop_lowBattery agg_init_fields)
qed

lemma snapshot_enriched:
  assumes "distinct (Object_keys readings)"
  shows "enrichedNodes (getWarehouseStatus now readings th) =
     map (\<lambda>k. (k, enrich now k (js_get readings k) (unitStatus now readings th k)))
       (Object_keys readings)"
proof (cases "readings = []")
  case True
  then show ?thesis by (simp add: getWarehouseStatus_empty Object_keys_def)
next
  case False
  have "enrichedNodes_acc (foldl (loop_body now readings th) agg_init (Object_keys readings)) =
     enrichedNodes_acc agg_init @
     map (\<lambda>k. (k, enrich now k (js_get readings k) (unitStatus now readings th k)))
       (Object_keys readings)"
    by (rule loop_enriched [OF assms]) (simp add: agg_init_fields)
  then show ?thesis
    by (simp add: getWarehouseStatus_loop [OF False refl] agg_init_fields)
qed

lemma low_battery_reading:
  assumes "field battery node \<noteq> None" and "js_lt (field battery node) m"
  shows "\<exists>n b l. node = Some n \<and> battery n = Some b \<and> m = Some l \<and> b < l"
  using assms by (auto simp: field_def js_lt_def split: option.splits)

text \<open>
  Claim C9: in every snapshot, \<open>totalNodes\<close> is the number of entries of the readings map
  and of \<open>enrichedNodes\<close> (which has the keys of the map, in order); \<open>totalNodes\<close> is the sum
  of \<open>onlineNodes\<close> and \<open>offlineNodes\<close>; the at-risk and critical counts together do not
  exceed \<open>onlineNodes\<close>; and every identifier in \<open>lowBatteryNodes\<close> is a key of an online
  unit whose reading has a battery level below \<open>min_battery\<close>.
\<close>

theorem snapshot_count_invariants:
  assumes "distinct (Object_keys readings)"
  shows "totalNodes (getWarehouseStatus now readings th) = int (length readings)
       \<and> length (enrichedNodes (getWarehouseStatus now readings th)) = length readings
       \<and> map fst (enrichedNodes (getWarehouseStatus now readings th)) = Object_keys readings
       \<and> totalNodes (getWarehouseStatus now readings th) =
           onlineNodes (getWarehouseStatus now readings th)
           + offlineNodes (getWarehouseStatus now readings th)
       \<and> 0 \<le> offlineNodes (getWarehouseStatus now readings th)
       \<and> 0 \<le> atRiskNodesCount (getWarehouseStatus now readings th)
       \<and> 0 \<le> criticalNodesCount (getWarehouseStatus now readings th)
       \<and> atRiskNodesCount (getWarehouseStatus now readings th)
           + criticalNodesCount (getWarehouseStatus now readings th)
           \<le> onlineNodes (getWarehouseStatus now readings th)
       \<and> (\<forall>k\<in>set (lowBatteryNodes (getWarehouseStatus now readings th)).
            k \<in> set (Object_keys readings)
            \<and> unitStatus now readings th k \<noteq> Offline
            \<and> (\<exists>n b l. js_get readings k = Some n \<and> battery n = Some b
                  \<and> min_battery th = Some l \<and> b < l))"
proof -
  let ?w = "getWarehouseStatus now readings th"
  let ?ks = "Object_keys readings"
  have len: "length ?ks = length readings" by (simp add: Object_keys_def)
  have e: "length (enrichedNodes ?w) = length readings
         \<and> map fst (enrichedNodes ?w) = ?ks"
    by (simp add: snapshot_enriched [OF assms] len comp_def)
  have on_le: "onlineNodes ?w \<le> int (length readings)"
    unfolding snapshot_counts len [symmetric] by simp
  have off: "totalNodes ?w = onlineNodes ?w + offlineNodes ?w \<and> 0 \<le> offlineNodes ?w"
    using on_le by (simp add: snapshot_totalNodes snapshot_offlineNodes)
  have "length (filter (\<lambda>k. unitStatus now readings th k = At_Risk) ?ks)
        + length (filter (\<lambda>k. unitStatus now readings th k = Critical) ?ks)
        \<le> length (filter (\<lambda>k. unitStatus now readings th k \<noteq> Offline) ?ks)"
    by (rule filter_two_le) auto
  then have cnt: "0 \<le> atRiskNodesCount ?w \<and> 0 \<le> criticalNodesCount ?w
       \<and> atRiskNodesCount ?w + criticalNodesCount ?w \<le> onlineNodes ?w"
    unfolding snapshot_counts by linarith
  have low: "\<forall>k\<in>set (lowBatteryNodes ?w).
            k \<in> set ?ks \<and> unitStatus now readings th k \<noteq> Offline
            \<and> (\<exists>n b l. js_get readings k = Some n \<and> battery n = Some b
                  \<and> min_battery th = Some l \<and> b < l)"
  proof
    fix k
    assume "k \<in> set (lowBatteryNodes ?w)"
    then have k: "k \<in> set ?ks" "unitStatus now readings th k \<noteq> Offline"
        "field battery (js_get readings k) \<noteq> None"
        "js_lt (field battery (js_get readings k)) (min_battery th)"
      unfolding snapshot_lowBattery by simp_all
    show "k \<in> set ?ks \<and> unitStatus now readings th k \<noteq> Offline
            \<and> (\<exists>n b l. js_get readings k = Some n \<and> battery n = Some b
                  \<and> min_battery th = Some l \<and> b < l)"
      using k(1,2) low_battery_reading [OF k(3,4)] by simp
  qed
  show ?thesis
    using snapshot_totalNodes [of now readings th] e off cnt low by blast
qed

theorem overallStatus_precedence_witness:
  "unitStatus 1000500
     [(''n1'', Some \<lparr>hum = Some 85, temp = Some 20, battery = Some 50, timestamp = Some 1000000\<rparr>),
      (''n2'', Some \<lparr>hum = Some 50, temp = Some 25, battery = Some 10, timestamp = Some 1000000\<rparr>),
      (''n3'', None)]
     DEFAULT_THRESHOLDS ''n1'' = Critical
   \<and> overallStatus (getWarehouseStatus 1000500
     [(''n1'', Some \<lparr>hum = Some 85, temp = Some 20, battery = Some 50, timestamp = Some 1000000\<rparr>),
      (''n2'', Some \<lparr>hum = Some 50, temp = Some 25, battery = Some 10, timestamp = Some 1000000\<rparr>),
      (''n3'', None)]
     DEFAULT_THRESHOLDS) = Critical"
proof -
  let ?R = "[(''n1'', Some \<lparr>hum = Some 85, temp = Some 20, battery = Some 50, timestamp = Some 1000000\<rparr>),
      (''n2'', Some \<lparr>hum = Some 50, temp = Some 25, battery = Some 10, timestamp = Some 1000000\<rparr>),
      (''n3'', None)]"
  have u: "unitStatus 1000500 ?R DEFAULT_THRESHOLDS ''n1'' = Critical"
    by (simp add: unitStatus_def js_get_def getNodeStatus_def isNodeStale_def
          STALE_THRESHOLD_MS_def DEFAULT_THRESHOLDS_def js_gt_def js_times_def)
  have k: "''n1'' \<in> set (Object_keys ?R)"
    by (simp add: Object_keys_def)
  note iff = overallStatus_precedence [of 1000500 ?R DEFAULT_THRESHOLDS,
      THEN conjunct2, THEN conjunct1]
  have "\<exists>k\<in>set (Object_keys ?R). unitStatus 1000500 ?R DEFAULT_THRESHOLDS k \<noteq> Offline
          \<and> unitStatus 1000500 ?R DEFAULT_THRESHOLDS k = Critical"
    using u k by (intro bexI [of _ "''n1''"]) simp_all
  then have "overallStatus (getWarehouseStatus 1000500 ?R DEFAULT_THRESHOLDS) = Critical"
    by (simp only: iff)
  with u show ?thesis by simp
qed

theorem averages_defined_witness:
  "unitStatus 2000000
     [(''n1'', Some \<lparr>hum = Some 85, temp = Some 20, battery = Some 50, timestamp = Some 1000000\<rparr>),
      (''n2'', None)] DEFAULT_THRESHOLDS ''n1'' = Offline
   \<and> unitStatus 2000000
     [(''n1'', Some \<lparr>hum = Some 85, temp = Some 20, battery = Some 50, timestamp = Some 1000000\<rparr>),
      (''n2'', None)] DEFAULT_THRESHOLDS ''n2'' = Offline
   \<and> averageTemp (getWarehouseStatus 2000000
     [(''n1'', Some \<lparr>hum = Some 85, temp = Some 20, battery = Some 50, timestamp = Some 1000000\<rparr>),
      (''n2'', None)] DEFAULT_THRESHOLDS) = Num 0
   \<and> averageHum (getWarehouseStatus 2000000
     [(''n1'', Some \<lparr>hum = Some 85, temp = Some 20, battery = Some 50, timestamp = Some 1000000\<rparr>),
      (''n2'', None)] DEFAULT_THRESHOLDS) = Num 0
   \<and> onlineNodes (getWarehouseStatus 1000500 fleet_mixed DEFAULT_THRESHOLDS) = 2
   \<and> averageTemp (getWarehouseStatus 1000500 fleet_mixed DEFAULT_THRESHOLDS)
       = Num (2828823515942093 / 140737488355328)
   \<and> averageHum (getWarehouseStatus 1000500 fleet_mixed DEFAULT_THRESHOLDS) = Num (85 / 2)"
proof -
  let ?R = "[(''n1'', Some \<lparr>hum = Some 85, temp = Some 20, battery = Some 50, timestamp = Some 1000000\<rparr>),
      (''n2'', None)]"
  have u1: "unitStatus 2000000 ?R DEFAULT_THRESHOLDS ''n1'' = Offline"
    by (simp add: unitStatus_def js_get_def getNodeStatus_def isNodeStale_def
          STALE_THRESHOLD_MS_def)
  have u2: "unitStatus 2000000 ?R DEFAULT_THRESHOLDS ''n2'' = Offline"
    by (simp add: unitStatus_def js_get_def getNodeStatus_def)
  have all: "\<forall>k\<in>set (Object_keys ?R). unitStatus 2000000 ?R DEFAULT_THRESHOLDS k = Offline"
    using u1 u2 by (simp add: Object_keys_def)
  note imp = averages_defined [of 2000000 ?R DEFAULT_THRESHOLDS,
      THEN conjunct2, THEN conjunct1]
  have off: "averageTemp (getWarehouseStatus 2000000 ?R DEFAULT_THRESHOLDS) = Num 0
      \<and> averageHum (getWarehouseStatus 2000000 ?R DEFAULT_THRESHOLDS) = Num 0"
    using imp all by (rule mp)
  let ?w = "getWarehouseStatus 1000500 fleet_mixed DEFAULT_THRESHOLDS"
  have online: "filter (\<lambda>k. unitStatus 1000500 fleet_mixed DEFAULT_THRESHOLDS k \<noteq> Offline)
      (Object_keys fleet_mixed) = [''n1'', ''n2'']"
    by code_simp
  note rest = averages_defined [of 1000500 fleet_mixed DEFAULT_THRESHOLDS,
      THEN conjunct2, THEN conjunct2, THEN conjunct2, THEN conjunct2, unfolded online]
  have n: "onlineNodes ?w = 2"
    using rest [THEN conjunct1] by simp
  have tsum: "parseFloat_toFixed1
      (fdiv (foldl (\<lambda>acc k. fadd acc
                       (Num (case field temp (js_get fleet_mixed k) of None \<Rightarrow> 0 | Some v \<Rightarrow> v)))
               (Num 0) [''n1'', ''n2'']) 2)
      = Num (2828823515942093 / 140737488355328)"
    by code_simp
  have hsum: "parseFloat_toFixed1
      (fdiv (foldl (\<lambda>acc k. fadd acc
                       (Num (case field hum (js_get fleet_mixed k) of None \<Rightarrow> 0 | Some v \<Rightarrow> v)))
               (Num 0) [''n1'', ''n2'']) 2)
      = Num (85 / 2)"
    by code_simp
  have avg: "averageTemp ?w = Num (2828823515942093 / 140737488355328)
      \<and> averageHum ?w = Num (85 / 2)"
    using rest [THEN conjunct2, THEN conjunct1] n tsum hsum by simp
  show ?thesis using u1 u2 off n avg by simp
qed

theorem snapshot_count_invariants_witness:
  "distinct (Object_keys
     [(''n1'', Some \<lparr>hum = Some 85, temp = Some 20, battery = Some 50, timestamp = Some 1000000\<rparr>),
      (''n2'', Some \<lparr>hum = Some 50, temp = Some 25, battery = Some 10, timestamp = Some 1000000\<rparr>),
      (''n3'', None)])
   \<and> totalNodes (getWarehouseStatus 1000500
     [(''n1'', Some \<lparr>hum = Some 85, temp = Some 20, battery = Some 50, timestamp = Some 1000000\<rparr>),
      (''n2'', Some \<lparr>hum = Some 50, temp = Some 25, battery = Some 10, timestamp = Some 1000000\<rparr>),
      (''n3'', None)]
     DEFAULT_THRESHOLDS) = 3
   \<and> lowBatteryNodes (getWarehouseStatus 1000500
     [(''n1'', Some \<lparr>hum = Some 85, temp = Some 20, battery = Some 50, timestamp = Some 1000000\<rparr>),
      (''n2'', Some \<lparr>hum = Some 50, temp = Some 25, battery = Some 10, timestamp = Some 1000000\<rparr>),
      (''n3'', None)]
     DEFAULT_THRESHOLDS) = [''n2'']
   \<and> map fst (enrichedNodes (getWarehouseStatus 1000500
     [(''n1'', Some \<lparr>hum = Some 85, temp = Some 20, battery = Some 50, timestamp = Some 1000000\<rparr>),
      (''n2'', Some \<lparr>hum = Some 50, temp = Some 25, battery = Some 10, timestamp = Some 1000000\<rparr>),
      (''n3'', None)]
     DEFAULT_THRESHOLDS)) = [''n1'', ''n2'', ''n3'']"
proof -
  let ?R = "[(''n1'', Some \<lparr>hum = Some 85, temp = Some 20, battery = Some 50, timestamp = Some 1000000\<rparr>),
      (''n2'', Some \<lparr>hum = Some 50, temp = Some 25, battery = Some 10, timestamp = Some 1000000\<rparr>),
      (''n3'', None)]"
  have d: "distinct (Object_keys ?R)"
    by (simp add: Object_keys_def)
  have low: "lowBatteryNodes (getWarehouseStatus 1000500 ?R DEFAULT_THRESHOLDS) = [''n2'']"
    by (simp add: snapshot_lowBattery Object_keys_def unitStatus_def js_get_def getNodeStatus_def
          isNodeStale_def STALE_THRESHOLD_MS_def DEFAULT_THRESHOLDS_def js_gt_def js_lt_def
          js_times_def field_def)
  have "totalNodes (getWarehouseStatus 1000500 ?R DEFAULT_THRESHOLDS) = int (length ?R)
      \<and> map fst (enrichedNodes (getWarehouseStatus 1000500 ?R DEFAULT_THRESHOLDS)) = Object_keys ?R"
    using snapshot_count_invariants [OF d, of 1000500 DEFAULT_THRESHOLDS] by simp
  then show ?thesis using d low by (simp add: Object_keys_def)
qed

subsection \<open>Transition-triggered alarm\<close>

lemma onSnapshot_fires:
  "fst (onSnapshot st s) \<longleftrightarrow> overallStatus s = Critical \<and> prevOverall st \<noteq> Some Critical"
  by (simp add: onSnapshot_def Let_def)

lemma onSnapshot_prevOverall:
  "prevOverall (snd (onSnapshot st s)) = Some (overallStatus s)"
  by (simp add: onSnapshot_def Let_def)

lemma onSnapshot_active:
  "amberAlertActive (snd (onSnapshot st s)) \<longleftrightarrow> amberAlertActive st \<or> fst (onSnapshot st s)"
  by (auto simp: onSnapshot_def Let_def)

lemma length_activations: "length (activations st ss) = length ss"
  by (induction ss arbitrary: st) simp_all

lemma activations_nth:
  "i < length ss \<Longrightarrow>
   activations st ss ! i \<longleftrightarrow>
     overallStatus (ss ! i) = Critical
     \<and> (if i = 0 then prevOverall st \<noteq> Some Critical
         else overallStatus (ss ! (i - 1)) \<noteq> Critical)"
proof (induction ss arbitrary: st i)
  case Nil
  then show ?case by simp
next
  case (Cons s ss)
  show ?case
  proof (cases i)
    case 0
    then show ?thesis by (simp add: onSnapshot_fires)
  next
    case (Suc j)
    then have j: "j < length ss" using Cons.prems by simp
    show ?thesis
      using Cons.IH [OF j, of "snd (onSnapshot st s)"] Suc
      by (cases j) (simp_all add: onSnapshot_prevOverall)
  qed
qed

lemma snapshot_optimal_overall: "overallStatus snapshot_optimal = Optimal"
  by (simp add: snapshot_optimal_def fleet_optimal_def snapshot_overall snapshot_counts
        Object_keys_def unitStatus_def js_get_def getNodeStatus_def isNodeStale_def
        STALE_THRESHOLD_MS_def DEFAULT_THRESHOLDS_def js_gt_def js_times_def)

lemma snapshot_critical_overall: "overallStatus snapshot_critical = Critical"
  by (simp add: snapshot_critical_def fleet_critical_def snapshot_overall snapshot_counts
        Object_keys_def unitStatus_def js_get_def getNodeStatus_def isNodeStale_def
        STALE_THRESHOLD_MS_def DEFAULT_THRESHOLDS_def js_gt_def js_times_def)

text \<open>
  Claim C3: fed a sequence of snapshots from its initial state (no previous status
  recorded), the hook runs its activation branch exactly on the snapshots whose overall
  status is Critical and whose predecessor, if there is one, was not Critical; while the
  status stays Critical there is no further activation. For the overall statuses
  Optimal, Critical, Critical, Optimal, Critical there are 2 activations, at the second
  and at the fifth snapshot.
\<close>

theorem alarm_edge_triggered:
  "length (activations hook_init ss) = length ss
   \<and> (\<forall>i<length ss.
        activations hook_init ss ! i \<longleftrightarrow>
          overallStatus (ss ! i) = Critical
          \<and> (i = 0 \<or> overallStatus (ss ! (i - 1)) \<noteq> Critical))
   \<and> (map overallStatus ss = [Optimal, Critical, Critical, Optimal, Critical]
        \<longrightarrow> activations hook_init ss = [False, True, False, False, True]
          \<and> length (filter (\<lambda>fired. fired) (activations hook_init ss)) = 2)"
proof -
  have init: "prevOverall hook_init \<noteq> Some Critical"
    by (simp add: hook_init_def)
  have nth: "\<forall>i<length ss.
        activations hook_init ss ! i \<longleftrightarrow>
          overallStatus (ss ! i) = Critical
          \<and> (i = 0 \<or> overallStatus (ss ! (i - 1)) \<noteq> Critical)"
    using init by (auto simp: activations_nth)
  have ex: "activations hook_init ss = [False, True, False, False, True]"
    if m: "map overallStatus ss = [Optimal, Critical, Critical, Optimal, Critical]"
  proof -
    from m obtain a b c d e where ss: "ss = [a, b, c, d, e]"
      and st: "overallStatus a = Optimal" "overallStatus b = Critical"
        "overallStatus c = Critical" "overallStatus d = Optimal" "overallStatus e = Critical"
      by (auto simp: map_eq_Cons_conv)
    show ?thesis
      unfolding ss using st init by (simp add: onSnapshot_fires onSnapshot_prevOverall)
  qed
  show ?thesis
    using length_activations [of hook_init ss] nth ex by auto
qed

theorem alarm_edge_triggered_witness:
  "map overallStatus
     [snapshot_optimal, snapshot_critical, snapshot_critical, snapshot_optimal, snapshot_critical]
     = [Optimal, Critical, Critical, Optimal, Critical]
   \<and> activations hook_init
     [snapshot_optimal, snapshot_critical, snapshot_critical, snapshot_optimal, snapshot_critical]
     = [False, True, False, False, True]
   \<and> length (filter (\<lambda>fired. fired) (activations hook_init
     [snapshot_optimal, snapshot_critical, snapshot_critical, snapshot_optimal, snapshot_critical]))
     = 2"
proof -
  let ?ss = "[snapshot_optimal, snapshot_critical, snapshot_critical, snapshot_optimal,
    snapshot_critical]"
  have m: "map overallStatus ?ss = [Optimal, Critical, Critical, Optimal, Critical]"
    by (simp add: snapshot_optimal_overall snapshot_critical_overall)
  note ex = alarm_edge_triggered [of ?ss, THEN conjunct2, THEN conjunct2]
  have "activations hook_init ?ss = [False, True, False, False, True]
      \<and> length (filter (\<lambda>fired. fired) (activations hook_init ?ss)) = 2"
    using ex m by (rule mp)
  with m show ?thesis by simp
qed

lemma feed_suppressed:
  "prevOverall st = Some Critical \<Longrightarrow> \<not> amberAlertActive st \<Longrightarrow>
   (\<forall>s\<in>set ss. overallStatus s = Critical) \<Longrightarrow>
   \<not> amberAlertActive (feed st ss) \<and> activations st ss = replicate (length ss) False"
proof (induction ss arbitrary: st)
  case Nil
  then show ?case by simp
next
  case (Cons s ss)
  have quiet: "\<not> fst (onSnapshot st s)"
    using Cons.prems(1) by (simp add: onSnapshot_fires)
  have "\<not> amberAlertActive (feed (snd (onSnapshot st s)) ss)
      \<and> activations (snd (onSnapshot st s)) ss = replicate (length ss) False"
    using Cons.prems quiet
    by (intro Cons.IH) (simp_all add: onSnapshot_prevOverall onSnapshot_active)
  then show ?case using quiet by simp
qed

text \<open>
  Claim C4, as the code has it: a recomputed snapshot never turns an active alarm off,
  whatever its overall status; the alarm is turned off by a dismissal, which leaves the
  recorded previous status and the snapshot as they were; after a dismissal while the
  status is Critical, further Critical snapshots neither activate nor show the alarm;
  and a snapshot that is not Critical followed by a Critical one activates it again.
\<close>

theorem alarm_cleared_only_by_dismissal:
  "(amberAlertActive st \<longrightarrow> amberAlertActive (handle st (Recomputed s)))
   \<and> \<not> amberAlertActive (handle st Dismissed)
   \<and> prevOverall (handle st Dismissed) = prevOverall st
   \<and> warehouseStatus (handle st Dismissed) = warehouseStatus st
   \<and> (prevOverall st = Some Critical \<and> (\<forall>s\<in>set ss. overallStatus s = Critical) \<longrightarrow>
        \<not> amberAlertActive (feed (handle st Dismissed) ss)
        \<and> activations (handle st Dismissed) ss = replicate (length ss) False)
   \<and> (overallStatus s1 \<noteq> Critical \<and> overallStatus s2 = Critical \<longrightarrow>
        activations st' [s1, s2] ! 1 \<and> amberAlertActive (feed st' [s1, s2]))"
proof -
  have stay: "amberAlertActive st \<longrightarrow> amberAlertActive (handle st (Recomputed s))"
    by (simp add: onSnapshot_active)
  have dis: "\<not> amberAlertActive (handle st Dismissed)
      \<and> prevOverall (handle st Dismissed) = prevOverall st
      \<and> warehouseStatus (handle st Dismissed) = warehouseStatus st"
    by (simp add: dismissAmberAlert_def)
  have sup: "prevOverall st = Some Critical \<and> (\<forall>s\<in>set ss. overallStatus s = Critical) \<longrightarrow>
        \<not> amberAlertActive (feed (handle st Dismissed) ss)
        \<and> activations (handle st Dismissed) ss = replicate (length ss) False"
    using dis feed_suppressed [of "handle st Dismissed" ss] by simp
  have again: "overallStatus s1 \<noteq> Critical \<and> overallStatus s2 = Critical \<longrightarrow>
        activations st' [s1, s2] ! 1 \<and> amberAlertActive (feed st' [s1, s2])"
    by (simp add: onSnapshot_fires onSnapshot_prevOverall onSnapshot_active)
  show ?thesis using stay dis sup again by blast
qed

lemma effect_critical:
  "overallStatus (getWarehouseStatus 1000500 fleet_critical DEFAULT_THRESHOLDS) = Critical"
  using snapshot_critical_overall by (simp add: snapshot_critical_def)

lemma effect_optimal:
  "overallStatus (getWarehouseStatus 1000500 fleet_optimal DEFAULT_THRESHOLDS) = Optimal"
  using snapshot_optimal_overall by (simp add: snapshot_optimal_def)

text \<open>
  Claim C4 as stated fails: the effect is run from the initial state on a critical
  fleet, which activates the alarm, and then on an optimal fleet; the overall status has
  left Critical and the alarm is still active.
\<close>

theorem alarm_survives_recovery:
  "amberAlertActive
     (snd (statusAggregationEffect hook_init 1000500 fleet_critical DEFAULT_THRESHOLDS))
   \<and> overallStatus (getWarehouseStatus 1000500 fleet_optimal DEFAULT_THRESHOLDS) = Optimal
   \<and> amberAlertActive
     (snd (statusAggregationEffect
        (snd (statusAggregationEffect hook_init 1000500 fleet_critical DEFAULT_THRESHOLDS))
        1000500 fleet_optimal DEFAULT_THRESHOLDS))"
  by (simp add: statusAggregationEffect_def onSnapshot_active onSnapshot_fires
        onSnapshot_prevOverall effect_critical effect_optimal hook_init_def)

theorem alarm_cleared_only_by_dismissal_witness:
  "amberAlertActive (feed hook_init [snapshot_critical])
   \<and> amberAlertActive (handle (feed hook_init [snapshot_critical]) (Recomputed snapshot_optimal))
   \<and> \<not> amberAlertActive (handle (feed hook_init [snapshot_critical]) Dismissed)
   \<and> \<not> amberAlertActive
       (feed (handle (feed hook_init [snapshot_critical]) Dismissed)
          [snapshot_critical, snapshot_critical])
   \<and> amberAlertActive
       (feed (feed (handle (feed hook_init [snapshot_critical]) Dismissed)
                [snapshot_critical, snapshot_critical])
          [snapshot_optimal, snapshot_critical])"
proof -
  let ?st = "feed hook_init [snapshot_critical]"
  let ?ss = "[snapshot_critical, snapshot_critical]"
  let ?q = "feed (handle ?st Dismissed) ?ss"
  note inst = alarm_cleared_only_by_dismissal
    [of ?st snapshot_optimal ?ss snapshot_optimal snapshot_critical ?q]
  have a: "amberAlertActive ?st"
    by (simp add: onSnapshot_active onSnapshot_fires snapshot_critical_overall hook_init_def)
  have p: "prevOverall ?st = Some Critical"
    by (simp add: onSnapshot_prevOverall snapshot_critical_overall)
  have c: "\<forall>s\<in>set ?ss. overallStatus s = Critical"
    by (simp add: snapshot_critical_overall)
  have o: "overallStatus snapshot_optimal \<noteq> Critical \<and> overallStatus snapshot_critical = Critical"
    by (simp add: snapshot_critical_overall snapshot_optimal_overall)
  have r1: "amberAlertActive (handle ?st (Recomputed snapshot_optimal))"
    using inst a by blast
  have r2: "\<not> amberAlertActive (handle ?st Dismissed)"
    using inst by blast
  have r3: "\<not> amberAlertActive ?q"
    using inst p c by blast
  have r4: "amberAlertActive (feed ?q [snapshot_optimal, snapshot_critical])"
    using inst o by blast
  show ?thesis using a r1 r2 r3 r4 by blast
qed

subsection \<open>Alert log projection\<close>












subsection \<open>CSV export\<close>


















lemma timestampCell_valid:
  "(\<forall>t. v = Some t \<longrightarrow> validTime t) \<Longrightarrow>
   timestampCell v = Inr (case v of None \<Rightarrow> [] | Some t \<Rightarrow> if t = 0 then [] else isoFormat t)"
  by (cases v) (simp_all add: timestampCell_def toISOString_def validTime_def)

lemma csvRow_valid:
  assumes "\<forall>t. alert_timestamp a = Some t \<longrightarrow> validTime t"
  shows "csvRow a =
     Inr (join [comma]
            [textCell (alert_id a), textCell (alert_nodeId a), textCell (alert_type a),
             numCell (alert_value a), numCell (alert_threshold a),
             (case alert_timestamp a of
                None \<Rightarrow> [] | Some t \<Rightarrow> if t = 0 then [] else isoFormat t),
             messageCell (alert_message a)])"
  by (simp add: csvRow_def csvCells_def timestampCell_valid [OF assms])




text \<open>
  When every timestamp that is present is accepted by the runtime and is not 0, the
  export is the one the specification words.
\<close>

lemma csvRow_spec_nonzero:
  assumes "\<forall>t. alert_timestamp a = Some t \<longrightarrow> validTime t \<and> t \<noteq> 0"
  shows "csvRow a = Inr (csvRow_spec a)"
proof -
  have v: "\<forall>t. alert_timestamp a = Some t \<longrightarrow> validTime t"
    using assms by blast
  have "(case alert_timestamp a of None \<Rightarrow> [] | Some t \<Rightarrow> if t = 0 then [] else isoFormat t)
      = timestampCell_spec (alert_timestamp a)"
    using assms by (simp add: timestampCell_spec_def split: option.splits)
  then show ?thesis
    by (simp add: csvRow_valid [OF v] csvRow_spec_def)
qed

lemma alertsToCsv_spec_nonzero:
  assumes "\<forall>a\<in>set alerts. \<forall>t. alert_timestamp a = Some t \<longrightarrow> validTime t \<and> t \<noteq> 0"
  shows "alertsToCsv alerts = Inr (alertsToCsv_spec alerts)"
proof -
  have "csvRows alerts = Inr (map csvRow_spec alerts)"
    using assms by (induction alerts) (simp_all add: csvRow_spec_nonzero)
  then show ?thesis
    by (simp add: alertsToCsv_def alertsToCsv_spec_def)
qed


end
